theory Spec2Isabelle
  imports Complex_Main
begin

section \<open>The planetary simulation of planets.py\<close>

text \<open>
  The embedding follows \<^verbatim>\<open>src/planets.py\<close>. Python's \<^verbatim>\<open>float\<close> values are
  modelled by the real numbers: the arithmetic is exact, there is no rounding, no
  overflow and no infinity or NaN. Radius and mass are Python integers in the program
  (\<^verbatim>\<open>max(MIN_RADIUS, int(...))\<close>, \<^verbatim>\<open>int(new_radius)\<close>,
  \<^verbatim>\<open>radius * MASS_MULTIPLIER\<close>) and are modelled by \<open>int\<close>. Planet objects live in a
  store indexed by addresses, so that the aliasing between the list of planets and the
  variable \<^verbatim>\<open>largest_planet\<close> is explicit. The calls into pygame that draw are left
  out; the calls that read the clock and the mouse are inputs of the event.
\<close>

subsection \<open>Errors and arithmetic of Python\<close>

datatype error = ZeroDivisionError | ValueError | UnboundLocalError

text \<open>Sequencing of computations that may raise.\<close>

definition bind_err :: "error + 'a \<Rightarrow> ('a \<Rightarrow> error + 'b) \<Rightarrow> error + 'b" where
  "bind_err m f = (case m of Inl e \<Rightarrow> Inl e | Inr v \<Rightarrow> f v)"

text \<open>True division \<^verbatim>\<open>a / b\<close> raises on a zero divisor.\<close>

definition py_div :: "real \<Rightarrow> real \<Rightarrow> error + real" where
  "py_div a b = (if b = 0 then Inl ZeroDivisionError else Inr (a / b))"

text \<open>\<^verbatim>\<open>math.sqrt\<close> raises on a negative argument.\<close>

definition math_sqrt :: "real \<Rightarrow> error + real" where
  "math_sqrt v = (if v < 0 then Inl ValueError else Inr (sqrt v))"

text \<open>\<^verbatim>\<open>int(v)\<close> of a float truncates towards zero.\<close>

definition py_int :: "real \<Rightarrow> int" where
  "py_int v = (if 0 \<le> v then \<lfloor>v\<rfloor> else \<lceil>v\<rceil>)"

subsection \<open>Constants\<close>

definition WIDTH :: int where "WIDTH = 1000"
definition HEIGHT :: int where "HEIGHT = 1000"
definition CENTER :: "int \<times> int" where "CENTER = (WIDTH div 2, HEIGHT div 2)"
definition GRAVITATIONAL_CONSTANT :: int where "GRAVITATIONAL_CONSTANT = 5"
definition MASS_MULTIPLIER :: int where "MASS_MULTIPLIER = 1"
definition TIME_STEP :: real where "TIME_STEP = 1"
definition MIN_RADIUS :: int where "MIN_RADIUS = 5"
definition CENTER_THRESHOLD :: real where "CENTER_THRESHOLD = 10"

subsection \<open>The colour gradient\<close>

definition get_color_from_radius :: "real \<Rightarrow> int \<times> int \<times> int" where
  "get_color_from_radius radius =
     (let max_radius_for_color = 200;
          factor = min 1 (radius / max_radius_for_color);
          r = py_int (128 + factor * 127);
          g = 0;
          b = py_int (128 - factor * 128)
      in (r, g, b))"

subsection \<open>Planets\<close>

text \<open>The class of an object decides which method a call dispatches to.\<close>

datatype planet_class = Planet | NonCollidingPlanet | GhostPlanet

record planet =
  cls :: planet_class
  x :: real
  y :: real
  radius :: int
  mass :: int
  vx :: real
  vy :: real
  ax :: real
  ay :: real
  color :: "int \<times> int \<times> int"
  is_largest :: bool
  is_collidable :: bool

definition Planet_init :: "real \<Rightarrow> real \<Rightarrow> int \<Rightarrow> real \<Rightarrow> real \<Rightarrow> planet" where
  "Planet_init px py r pvx pvy =
     \<lparr> cls = Planet, x = px, y = py, radius = r, mass = r * MASS_MULTIPLIER,
       vx = pvx, vy = pvy, ax = 0, ay = 0,
       color = get_color_from_radius (of_int r),
       is_largest = False, is_collidable = True \<rparr>"

definition NonCollidingPlanet_init :: "real \<Rightarrow> real \<Rightarrow> int \<Rightarrow> real \<Rightarrow> real \<Rightarrow> planet" where
  "NonCollidingPlanet_init px py r pvx pvy =
     (Planet_init px py r pvx pvy)
       \<lparr> cls := NonCollidingPlanet, is_collidable := False, color := (255, 255, 255) \<rparr>"

definition GhostPlanet_init :: "real \<Rightarrow> real \<Rightarrow> int \<Rightarrow> real \<Rightarrow> real \<Rightarrow> planet" where
  "GhostPlanet_init px py r pvx pvy =
     (NonCollidingPlanet_init px py r pvx pvy)
       \<lparr> cls := GhostPlanet, is_collidable := False, color := (255, 255, 255) \<rparr>"

text \<open>
  The body shared by \<^verbatim>\<open>Planet.apply_gravity\<close> and \<^verbatim>\<open>GhostPlanet.apply_gravity\<close>
  once the test on \<^verbatim>\<open>other.is_collidable\<close> has passed. The result is the updated
  \<^verbatim>\<open>self\<close>; \<^verbatim>\<open>other\<close> is only read.
\<close>

definition gravity_pull :: "planet \<Rightarrow> planet \<Rightarrow> error + planet" where
  "gravity_pull self other =
     (let dx = x other - x self;
          dy = y other - y self
      in bind_err (math_sqrt (dx ^ 2 + dy ^ 2)) (\<lambda>root.
         let distance = root + 1 / 100
         in bind_err (py_div (of_int (GRAVITATIONAL_CONSTANT * mass self * mass other)) (distance ^ 2)) (\<lambda>force.
            bind_err (py_div (force * dx) (distance * of_int (mass self))) (\<lambda>ax'.
            bind_err (py_div (force * dy) (distance * of_int (mass self))) (\<lambda>ay'.
            Inr (self \<lparr> ax := ax self + ax', ay := ay self + ay' \<rparr>))))))"

definition Planet_apply_gravity :: "planet \<Rightarrow> planet \<Rightarrow> error + planet" where
  "Planet_apply_gravity self other =
     (if is_collidable other then gravity_pull self other else Inr self)"

definition GhostPlanet_apply_gravity :: "planet \<Rightarrow> planet \<Rightarrow> error + planet" where
  "GhostPlanet_apply_gravity self other =
     (if \<not> is_collidable other then Inr self else gravity_pull self other)"

text \<open>Method dispatch: only \<^verbatim>\<open>GhostPlanet\<close> overrides \<^verbatim>\<open>apply_gravity\<close>.\<close>

definition apply_gravity :: "planet \<Rightarrow> planet \<Rightarrow> error + planet" where
  "apply_gravity self other =
     (case cls self of
        Planet \<Rightarrow> Planet_apply_gravity self other
      | NonCollidingPlanet \<Rightarrow> Planet_apply_gravity self other
      | GhostPlanet \<Rightarrow> GhostPlanet_apply_gravity self other)"

definition apply_gravity_to_center :: "planet \<Rightarrow> error + planet" where
  "apply_gravity_to_center self =
     (if is_largest self then
        (let dx = of_int (fst CENTER) - x self;
             dy = of_int (snd CENTER) - y self
         in bind_err (math_sqrt (dx ^ 2 + dy ^ 2)) (\<lambda>root.
            let distance = root + 1 / 100
            in if distance < CENTER_THRESHOLD then Inr self
               else
                 bind_err (py_div (0.5 * of_int GRAVITATIONAL_CONSTANT * of_int (mass self) * of_int (mass self))
                                  (distance ^ 2)) (\<lambda>force.
                 bind_err (py_div (force * dx) (distance * of_int (mass self))) (\<lambda>ax'.
                 bind_err (py_div (force * dy) (distance * of_int (mass self))) (\<lambda>ay'.
                 Inr (self \<lparr> ax := ax self + ax', ay := ay self + ay' \<rparr>))))))
      else Inr self)"

text \<open>The six assignments of \<^verbatim>\<open>update_position\<close>, one after the other.\<close>

definition update_position :: "planet \<Rightarrow> real \<Rightarrow> planet" where
  "update_position self dt =
     (let s1 = self \<lparr> vx := vx self + ax self * dt \<rparr>;
          s2 = s1 \<lparr> vy := vy s1 + ay s1 * dt \<rparr>;
          s3 = s2 \<lparr> x := x s2 + vx s2 * dt \<rparr>;
          s4 = s3 \<lparr> y := y s3 + vy s3 * dt \<rparr>;
          s5 = s4 \<lparr> ax := 0 \<rparr>
      in s5 \<lparr> ay := 0 \<rparr>)"

subsection \<open>The store, collision and merge\<close>

text \<open>
  \<^verbatim>\<open>merge\<close> and \<^verbatim>\<open>check_collision\<close> write to \<^verbatim>\<open>self\<close> and then read
  \<^verbatim>\<open>other\<close>, so they are modelled on the store, statement by statement: \<open>self\<close> and
  \<open>other\<close> are addresses.
\<close>

type_synonym store = "nat \<Rightarrow> planet"

definition merge :: "store \<Rightarrow> nat \<Rightarrow> nat \<Rightarrow> error + store" where
  "merge h self other =
     bind_err (math_sqrt (of_int ((radius (h self)) ^ 2 + (radius (h other)) ^ 2))) (\<lambda>new_radius.
     let new_mass = mass (h self) + mass (h other);
         h1 = h (self := (h self) \<lparr> radius := py_int new_radius \<rparr>);
         h2 = h1 (self := (h1 self) \<lparr> mass := new_mass \<rparr>);
         h3 = h2 (self := (h2 self) \<lparr> color := get_color_from_radius (of_int (radius (h2 self))) \<rparr>)
     in bind_err (py_div (vx (h3 self) * of_int (mass (h3 self)) + vx (h3 other) * of_int (mass (h3 other)))
                         (of_int new_mass)) (\<lambda>vx'.
        let h4 = h3 (self := (h3 self) \<lparr> vx := vx' \<rparr>)
        in bind_err (py_div (vy (h4 self) * of_int (mass (h4 self)) + vy (h4 other) * of_int (mass (h4 other)))
                            (of_int new_mass)) (\<lambda>vy'.
           Inr (h4 (self := (h4 self) \<lparr> vy := vy' \<rparr>)))))"

text \<open>The result of a collision test is the updated store and the returned flag.\<close>

definition Planet_check_collision :: "store \<Rightarrow> nat \<Rightarrow> nat \<Rightarrow> error + store \<times> bool" where
  "Planet_check_collision h self other =
     (let dx = x (h other) - x (h self);
          dy = y (h other) - y (h self)
      in bind_err (math_sqrt (dx ^ 2 + dy ^ 2)) (\<lambda>distance.
         if distance < of_int (radius (h self) + radius (h other))
         then bind_err (merge h self other) (\<lambda>h'. Inr (h', True))
         else Inr (h, False)))"

definition NonCollidingPlanet_check_collision :: "store \<Rightarrow> nat \<Rightarrow> nat \<Rightarrow> error + store \<times> bool" where
  "NonCollidingPlanet_check_collision h self other = Inr (h, False)"

text \<open>Method dispatch: \<^verbatim>\<open>GhostPlanet\<close> inherits the override of \<^verbatim>\<open>NonCollidingPlanet\<close>.\<close>

definition check_collision :: "store \<Rightarrow> nat \<Rightarrow> nat \<Rightarrow> error + store \<times> bool" where
  "check_collision h self other =
     (case cls (h self) of
        Planet \<Rightarrow> Planet_check_collision h self other
      | NonCollidingPlanet \<Rightarrow> NonCollidingPlanet_check_collision h self other
      | GhostPlanet \<Rightarrow> NonCollidingPlanet_check_collision h self other)"

subsection \<open>One tick of the main loop\<close>

text \<open>
  The collision pass. \<open>to_remove\<close> is the Python set of objects, kept as a list without
  duplicates; the list of planets is not changed during the pass.
\<close>

fun collide_with :: "nat \<Rightarrow> nat list \<Rightarrow> store \<times> nat list \<Rightarrow> error + store \<times> nat list" where
  "collide_with planet [] (h, to_remove) = Inr (h, to_remove)"
| "collide_with planet (other_planet # rest) (h, to_remove) =
     bind_err (check_collision h planet other_planet) (\<lambda>(h', hit).
       collide_with planet rest (h', if hit then List.insert other_planet to_remove else to_remove))"

fun collision_pass :: "nat list \<Rightarrow> store \<times> nat list \<Rightarrow> error + store \<times> nat list" where
  "collision_pass [] st = Inr st"
| "collision_pass (planet # rest) st = bind_err (collide_with planet rest st) (collision_pass rest)"

text \<open>\<^verbatim>\<open>planets.remove(planet)\<close> removes the first occurrence and raises when there is none.\<close>

definition list_remove :: "nat list \<Rightarrow> nat \<Rightarrow> error + nat list" where
  "list_remove ps a = (if a \<in> set ps then Inr (remove1 a ps) else Inl ValueError)"

fun remove_planets :: "nat list \<Rightarrow> nat list \<Rightarrow> error + nat list" where
  "remove_planets ps [] = Inr ps"
| "remove_planets ps (a # to_remove) = bind_err (list_remove ps a) (\<lambda>ps'. remove_planets ps' to_remove)"

text \<open>The force pass: the inner loop over all planets, then the pull to the centre.\<close>

fun gravity_from :: "nat \<Rightarrow> nat list \<Rightarrow> store \<Rightarrow> error + store" where
  "gravity_from planet [] h = Inr h"
| "gravity_from planet (other_planet # rest) h =
     (if planet \<noteq> other_planet
      then bind_err (apply_gravity (h planet) (h other_planet)) (\<lambda>p.
             gravity_from planet rest (h (planet := p)))
      else gravity_from planet rest h)"

fun force_pass :: "nat list \<Rightarrow> nat list \<Rightarrow> store \<Rightarrow> error + store" where
  "force_pass all [] h = Inr h"
| "force_pass all (planet # rest) h =
     bind_err (gravity_from planet all h) (\<lambda>h1.
     bind_err (apply_gravity_to_center (h1 planet)) (\<lambda>p.
     force_pass all rest (h1 (planet := p))))"

fun integration_pass :: "nat list \<Rightarrow> real \<Rightarrow> store \<Rightarrow> store" where
  "integration_pass [] dt h = h"
| "integration_pass (planet # rest) dt h =
     integration_pass rest dt (h (planet := update_position (h planet) dt))"

text \<open>The state of \<^verbatim>\<open>main\<close>: the store and the local variables of the loop.\<close>

record sim =
  heap :: store
  next_addr :: nat
  planets :: "nat list"
  largest_planet :: "nat option"
  running :: bool
  creating_planet :: bool
  creation_start_time :: int
  creation_start_pos :: "int \<times> int"
  setting_velocity :: bool
  velocity_target_pos :: "int \<times> int"
  main_radius :: "int option"

text \<open>
  The four passes of a frame after the events: collisions, removal, forces, integration.
  \<^verbatim>\<open>main\<close> integrates with \<open>TIME_STEP\<close>; the step is a parameter here.
\<close>

definition tick :: "real \<Rightarrow> sim \<Rightarrow> error + sim" where
  "tick dt s =
     bind_err (collision_pass (planets s) (heap s, [])) (\<lambda>(h1, to_remove).
     bind_err (remove_planets (planets s) to_remove) (\<lambda>ps.
     bind_err (force_pass ps ps h1) (\<lambda>h2.
     Inr (s \<lparr> heap := integration_pass ps dt h2, planets := ps \<rparr>))))"

subsection \<open>Events\<close>

text \<open>
  An event carries what its handler reads from pygame: \<^verbatim>\<open>event.button\<close>,
  \<^verbatim>\<open>pygame.time.get_ticks()\<close> and \<^verbatim>\<open>pygame.mouse.get_pos()\<close>, or the key.
\<close>

datatype key = K_SPACE | K_p | K_o | K_other

datatype event =
    QUIT
  | MOUSEBUTTONDOWN int int "int \<times> int"
  | MOUSEBUTTONUP int int "int \<times> int"
  | KEYDOWN key "int \<times> int"
  | OTHER_EVENT

text \<open>
  The initial store holds no object; an address below \<open>next_addr\<close> is an object that
  was created. \<^verbatim>\<open>radius\<close> of \<^verbatim>\<open>main\<close> is unbound until the first release.
\<close>

definition init_sim :: sim where
  "init_sim =
     \<lparr> heap = (\<lambda>_. Planet_init 0 0 0 0 0), next_addr = 0, planets = [],
       largest_planet = None, running = True, creating_planet = False,
       creation_start_time = 0, creation_start_pos = (0, 0),
       setting_velocity = False, velocity_target_pos = (0, 0), main_radius = None \<rparr>"

text \<open>A new object gets a fresh address and is appended to the list of planets.\<close>

definition append_new :: "planet \<Rightarrow> sim \<Rightarrow> sim" where
  "append_new p s =
     s \<lparr> heap := (heap s) (next_addr s := p),
         next_addr := Suc (next_addr s),
         planets := planets s @ [next_addr s] \<rparr>"

text \<open>Lines 189 to 193: the new planet takes the flag from the current holder.\<close>

definition update_largest :: "nat \<Rightarrow> sim \<Rightarrow> sim" where
  "update_largest new_planet s =
     (if (case largest_planet s of
            None \<Rightarrow> True
          | Some l \<Rightarrow> radius (heap s new_planet) > radius (heap s l))
      then
        (let s1 = (case largest_planet s of
                     None \<Rightarrow> s
                   | Some l \<Rightarrow> s \<lparr> heap := (heap s) (l := (heap s l) \<lparr> is_largest := False \<rparr>) \<rparr>);
             s2 = s1 \<lparr> largest_planet := Some new_planet \<rparr>
         in s2 \<lparr> heap := (heap s2) (new_planet := (heap s2 new_planet) \<lparr> is_largest := True \<rparr>) \<rparr>)
      else s)"

fun handle_event :: "sim \<Rightarrow> event \<Rightarrow> error + sim" where
  "handle_event s QUIT = Inr (s \<lparr> running := False \<rparr>)"
| "handle_event s (MOUSEBUTTONDOWN button ticks pos) =
     (if button = 1 then
        (if \<not> creating_planet s \<and> \<not> setting_velocity s
         then Inr (s \<lparr> creating_planet := True, creation_start_time := ticks,
                       creation_start_pos := pos \<rparr>)
         else Inr s)
      else Inr s)"
| "handle_event s (MOUSEBUTTONUP button ticks pos) =
     (if button = 1 then
        (if creating_planet s then
           (let creation_duration = of_int (ticks - creation_start_time s) / (100 :: real);
                r = max MIN_RADIUS (py_int creation_duration)
            in Inr (s \<lparr> main_radius := Some r, creating_planet := False, setting_velocity := True \<rparr>))
         else if setting_velocity s then
           (let s1 = s \<lparr> velocity_target_pos := pos, setting_velocity := False \<rparr>;
                dx = fst (velocity_target_pos s1) - fst (creation_start_pos s1);
                dy = snd (velocity_target_pos s1) - snd (creation_start_pos s1);
                velocity_scale = (5 / 100 :: real);
                pvx = of_int dx * velocity_scale;
                pvy = of_int dy * velocity_scale
            in case main_radius s1 of
                 None \<Rightarrow> Inl UnboundLocalError
               | Some r \<Rightarrow>
                   (let new_planet = next_addr s1;
                        s2 = append_new (Planet_init (of_int (fst (creation_start_pos s1)))
                                                     (of_int (snd (creation_start_pos s1))) r pvx pvy) s1
                    in Inr (update_largest new_planet s2)))
         else Inr s)
      else Inr s)"
| "handle_event s (KEYDOWN k pos) =
     (case k of
        K_SPACE \<Rightarrow> Inr (s \<lparr> planets := [] \<rparr>)
      | K_p \<Rightarrow> Inr (append_new (NonCollidingPlanet_init (of_int (fst pos)) (of_int (snd pos)) MIN_RADIUS 0 0) s)
      | K_o \<Rightarrow> Inr (append_new (GhostPlanet_init (of_int (fst pos)) (of_int (snd pos)) MIN_RADIUS 0 0) s)
      | K_other \<Rightarrow> Inr s)"
| "handle_event s OTHER_EVENT = Inr s"

fun handle_events :: "sim \<Rightarrow> event list \<Rightarrow> error + sim" where
  "handle_events s [] = Inr s"
| "handle_events s (e # es) = bind_err (handle_event s e) (\<lambda>s'. handle_events s' es)"

text \<open>One iteration of the \<^verbatim>\<open>while running\<close> loop: the events of the frame, then the tick.\<close>

definition frame :: "sim \<Rightarrow> event list \<Rightarrow> error + sim" where
  "frame s es = bind_err (handle_events s es) (tick TIME_STEP)"

text \<open>
  The loop: \<^verbatim>\<open>running\<close> is tested before each frame, so the frame that handles
  \<^verbatim>\<open>QUIT\<close> is still completed and no later one is run.
\<close>

fun frames :: "sim \<Rightarrow> event list list \<Rightarrow> error + sim" where
  "frames s [] = Inr s"
| "frames s (es # rest) =
     (if running s then bind_err (frame s es) (\<lambda>s'. frames s' rest) else Inr s)"

subsection \<open>Definitions that follow the specification\<close>

text \<open>
  The Color Mapper as the specification words it: \<open>f = clamp(radius / maxRadiusForColor, 0, 1)\<close>,
  red \<open>128 + 127f\<close>, green \<open>0\<close>, blue \<open>128 - 128f\<close>, each truncated to an integer.
\<close>

definition spec_clamp :: "real \<Rightarrow> real \<Rightarrow> real \<Rightarrow> real" where
  "spec_clamp v lo hi = max lo (min hi v)"

definition spec_colorFromRadius :: "real \<Rightarrow> int \<times> int \<times> int" where
  "spec_colorFromRadius r =
     (let f = spec_clamp (r / 200) 0 1
      in (py_int (128 + 127 * f), 0, py_int (128 - 128 * f)))"

subsection \<open>Auxiliary notions and example states\<close>

text \<open>The value of the local variable \<^verbatim>\<open>distance\<close> of \<^verbatim>\<open>apply_gravity_to_center\<close>.\<close>

definition center_distance :: "planet \<Rightarrow> real" where
  "center_distance p =
     sqrt ((of_int (fst CENTER) - x p) ^ 2 + (of_int (snd CENTER) - y p) ^ 2) + 1 / 100"

text \<open>A store with a planet of radius 3 at address 0 and one of radius 4 at address 1.\<close>

definition two_bodies :: store where
  "two_bodies = (\<lambda>_. Planet_init 0 0 0 0 0) (0 := Planet_init 0 0 3 1 0, 1 := Planet_init 1 0 4 0 2)"

subsection \<open>Invariants and reachable states\<close>

text \<open>
  What holds of every planet object the program creates: a positive mass, a radius of at
  least \<open>MIN_RADIUS\<close>, and a mass of at least \<open>radius * MASS_MULTIPLIER\<close>.
\<close>

definition body_inv :: "planet \<Rightarrow> bool" where
  "body_inv p \<longleftrightarrow> 0 < mass p \<and> MIN_RADIUS \<le> radius p \<and> radius p * MASS_MULTIPLIER \<le> mass p"

text \<open>The fields that a merge leaves alone, and the fields that gravity leaves alone.\<close>

definition merge_only :: "planet \<Rightarrow> planet \<Rightarrow> bool" where
  "merge_only p q \<longleftrightarrow>
     cls q = cls p \<and> x q = x p \<and> y q = y p \<and> ax q = ax p \<and> ay q = ay p
     \<and> is_largest q = is_largest p \<and> is_collidable q = is_collidable p"

definition acc_only :: "planet \<Rightarrow> planet \<Rightarrow> bool" where
  "acc_only p q \<longleftrightarrow>
     cls q = cls p \<and> x q = x p \<and> y q = y p \<and> radius q = radius p \<and> mass q = mass p
     \<and> vx q = vx p \<and> vy q = vy p \<and> color q = color p
     \<and> is_largest q = is_largest p \<and> is_collidable q = is_collidable p"

text \<open>The invariant of the state of \<^verbatim>\<open>main\<close>.\<close>

definition sim_inv :: "sim \<Rightarrow> bool" where
  "sim_inv s \<longleftrightarrow>
     (\<forall>a \<in> set (planets s). a < next_addr s) \<and> distinct (planets s)
     \<and> (\<forall>a < next_addr s. body_inv (heap s a))
     \<and> (\<forall>a < next_addr s. is_collidable (heap s a) \<longleftrightarrow> cls (heap s a) = Planet)
     \<and> (\<forall>a < next_addr s. is_largest (heap s a) \<longrightarrow> largest_planet s = Some a)
     \<and> (\<forall>l. largest_planet s = Some l \<longrightarrow> l < next_addr s)
     \<and> (setting_velocity s \<longrightarrow> main_radius s \<noteq> None)
     \<and> (\<forall>r. main_radius s = Some r \<longrightarrow> MIN_RADIUS \<le> r)"

text \<open>
  The states of \<^verbatim>\<open>main\<close>: the initial one, and those after an event or a tick.
  Events and ticks come in any order and a tick takes any step, which covers the frames
  of the loop.
\<close>

inductive reachable :: "sim \<Rightarrow> bool" where
  reachable_init: "reachable init_sim"
| reachable_event: "reachable s \<Longrightarrow> handle_event s e = Inr s' \<Longrightarrow> reachable s'"
| reachable_tick: "reachable s \<Longrightarrow> tick dt s = Inr s' \<Longrightarrow> reachable s'"

text \<open>
  Events of one frame: a planet of radius 10 made at (100, 100) with the mouse, then the
  key \<^verbatim>\<open>p\<close> pressed with the mouse at (110, 100).
\<close>

definition standard_then_noncolliding :: "event list" where
  "standard_then_noncolliding =
     [MOUSEBUTTONDOWN 1 0 (100, 100), MOUSEBUTTONUP 1 1000 (100, 100),
      MOUSEBUTTONUP 1 1500 (120, 100), KEYDOWN K_p (110, 100)]"

text \<open>
  Events of one frame: a planet of radius 5 made at (500, 500) with the mouse, with no
  velocity, then the key \<^verbatim>\<open>o\<close> pressed with the mouse at the same place.
\<close>

definition standard_then_ghost :: "event list" where
  "standard_then_ghost =
     [MOUSEBUTTONDOWN 1 0 (500, 500), MOUSEBUTTONUP 1 0 (500, 500),
      MOUSEBUTTONUP 1 0 (500, 500), KEYDOWN K_o (500, 500)]"

text \<open>A store with two planets of radius 5, at addresses 0 and 1.\<close>

definition two_equal_bodies :: store where
  "two_equal_bodies = (\<lambda>_. Planet_init 0 0 0 0 0) (0 := Planet_init 0 0 5 0 0, 1 := Planet_init 1 0 5 0 0)"

text \<open>
  The one way in which the flag moves: the event is the release that creates a planet,
  the new planet is appended at the fresh address and becomes \<^verbatim>\<open>largest_planet\<close>, and
  its radius is larger than that of the planet that held the flag, if there was one.
\<close>

definition flag_step :: "sim \<Rightarrow> event \<Rightarrow> sim \<Rightarrow> bool" where
  "flag_step s e s' \<longleftrightarrow>
     (\<exists>ticks pos. e = MOUSEBUTTONUP 1 ticks pos)
     \<and> planets s' = planets s @ [next_addr s]
     \<and> cls (heap s' (next_addr s)) = Planet
     \<and> largest_planet s' = Some (next_addr s)
     \<and> (\<forall>l. largest_planet s = Some l \<longrightarrow> radius (heap s l) < radius (heap s' (next_addr s)))"

text \<open>The press and the release that fix a radius of 10 at (100, 100).\<close>

definition sizing_done :: "event list" where
  "sizing_done = [MOUSEBUTTONDOWN 1 0 (100, 100), MOUSEBUTTONUP 1 1000 (100, 100)]"



text \<open>
  Events that make one planet of radius 10, and the same followed by the press and the
  release that fix the radius 5 of a second planet.
\<close>

definition one_planet :: "event list" where
  "one_planet =
     [MOUSEBUTTONDOWN 1 0 (100, 100), MOUSEBUTTONUP 1 1000 (100, 100),
      MOUSEBUTTONUP 1 1500 (120, 100)]"

definition one_planet_then_sizing :: "event list" where
  "one_planet_then_sizing =
     one_planet @ [MOUSEBUTTONDOWN 1 2000 (300, 300), MOUSEBUTTONUP 1 2100 (300, 300)]"

text \<open>
  The collision pass, body by body. \<open>overlaps\<close> is the test of
  \<^verbatim>\<open>Planet.check_collision\<close>; \<open>absorb p q\<close> is the body \<open>p\<close> after it has merged
  the body \<open>q\<close>: radius \<open>int(sqrt(r1\<^sup>2 + r2\<^sup>2))\<close>, mass \<open>m1 + m2\<close>, the colour of the
  new radius and velocity \<open>(v1 * (m1 + m2) + v2 * m2) / (m1 + m2)\<close>; \<open>absorb_all p qs\<close>
  lets \<open>p\<close> test the bodies \<open>qs\<close> in order and absorb each one it overlaps at that
  moment. Only an object of class \<^verbatim>\<open>Planet\<close> runs the test.
\<close>

definition overlaps :: "planet \<Rightarrow> planet \<Rightarrow> bool" where
  "overlaps p q \<longleftrightarrow> sqrt ((x q - x p) ^ 2 + (y q - y p) ^ 2) < of_int (radius p + radius q)"

definition absorb :: "planet \<Rightarrow> planet \<Rightarrow> planet" where
  "absorb p q =
     p \<lparr> radius := py_int (sqrt (of_int ((radius p) ^ 2 + (radius q) ^ 2))),
         mass := mass p + mass q,
         color := get_color_from_radius (of_int (py_int (sqrt (of_int ((radius p) ^ 2 + (radius q) ^ 2))))),
         vx := (vx p * of_int (mass p + mass q) + vx q * of_int (mass q)) / of_int (mass p + mass q),
         vy := (vy p * of_int (mass p + mass q) + vy q * of_int (mass q)) / of_int (mass p + mass q) \<rparr>"

definition collide_step :: "planet \<Rightarrow> planet \<Rightarrow> planet" where
  "collide_step p q = (if cls p = Planet \<and> overlaps p q then absorb p q else p)"

definition absorb_all :: "planet \<Rightarrow> planet list \<Rightarrow> planet" where
  "absorb_all p qs = foldl collide_step p qs"



section \<open>Properties\<close>

subsection \<open>Arithmetic helpers\<close>

lemma bind_err_simps [simp]:
  "bind_err (Inl e) f = Inl e"
  "bind_err (Inr v) f = f v"
  by (simp_all add: bind_err_def)

lemma math_sqrt_sum_squares [simp]:
  "math_sqrt (a ^ 2 + b ^ 2) = Inr (sqrt (a ^ 2 + b ^ 2))"
  by (simp add: math_sqrt_def not_less)

lemma padded_distance_pos: "0 < sqrt (a ^ 2 + b ^ 2) + 1 / (100 :: real)"
  by (smt (verit) real_sqrt_ge_zero sum_power2_ge_zero divide_pos_pos)

lemma py_int_mono: "a \<le> b \<Longrightarrow> py_int a \<le> py_int b"
  unfolding py_int_def
  by (auto intro: floor_mono ceiling_mono) (smt (verit) ceiling_le_zero zero_le_floor)

lemma py_int_of_int [simp]: "py_int (of_int n) = n"
  by (simp add: py_int_def)

lemma py_int_numeral [simp]:
  "py_int (numeral n) = numeral n" "py_int 0 = 0" "py_int 1 = 1"
  by (simp_all add: py_int_def)

subsection \<open>The colour gradient\<close>

lemma color_red_blue:
  "get_color_from_radius r =
     (py_int (128 + min 1 (r / 200) * 127), 0, py_int (128 - min 1 (r / 200) * 128))"
  by (simp add: get_color_from_radius_def Let_def)

text \<open>
  Claim C8. On a radius that is not negative, \<open>get_color_from_radius\<close> computes the
  colour of the specification: \<open>f\<close> is \<open>radius / 200\<close> clamped to \<open>[0, 1]\<close> and the
  result is \<open>(int(128 + 127f), 0, int(128 - 128f))\<close>. Radius \<open>0\<close> gives
  \<open>(128, 0, 128)\<close>, every radius from the saturation radius \<open>200\<close> on gives
  \<open>(255, 0, 0)\<close>, and between \<open>0\<close> and \<open>200\<close> red does not decrease, green is
  constant and blue does not increase as the radius grows. The function reads nothing
  but its argument. (The code clamps with \<open>min(1, _)\<close> only; the lower clamp of the
  specification has no effect on a radius that is not negative.)
\<close>

theorem color_mapper:
  "(0 \<le> r \<longrightarrow> get_color_from_radius r = spec_colorFromRadius r)
   \<and> get_color_from_radius 0 = (128, 0, 128)
   \<and> (200 \<le> r \<longrightarrow> get_color_from_radius r = (255, 0, 0))
   \<and> (0 \<le> r1 \<and> r1 \<le> r2 \<and> r2 \<le> 200 \<longrightarrow>
        fst (get_color_from_radius r1) \<le> fst (get_color_from_radius r2)
        \<and> fst (snd (get_color_from_radius r1)) = fst (snd (get_color_from_radius r2))
        \<and> snd (snd (get_color_from_radius r2)) \<le> snd (snd (get_color_from_radius r1)))"
proof (intro conjI impI)
  assume "0 \<le> r"
  then have "max 0 (min 1 (r / 200)) = min 1 (r / 200)" by simp
  then show "get_color_from_radius r = spec_colorFromRadius r"
    by (simp add: color_red_blue spec_colorFromRadius_def spec_clamp_def Let_def mult.commute)
next
  show "get_color_from_radius 0 = (128, 0, 128)"
    by (simp add: color_red_blue)
next
  assume "200 \<le> r"
  then have "min 1 (r / 200) = 1" by simp
  then show "get_color_from_radius r = (255, 0, 0)"
    by (simp add: color_red_blue)
next
  assume h: "0 \<le> r1 \<and> r1 \<le> r2 \<and> r2 \<le> 200"
  then have m: "min 1 (r1 / 200) \<le> min 1 (r2 / 200)" by simp
  show "fst (get_color_from_radius r1) \<le> fst (get_color_from_radius r2)"
    using m by (simp add: color_red_blue py_int_mono)
  show "fst (snd (get_color_from_radius r1)) = fst (snd (get_color_from_radius r2))"
    by (simp add: color_red_blue)
  show "snd (snd (get_color_from_radius r2)) \<le> snd (snd (get_color_from_radius r1))"
    using m by (simp add: color_red_blue py_int_mono)
qed

theorem color_mapper_witness:
  "get_color_from_radius 100 = spec_colorFromRadius 100
   \<and> get_color_from_radius 100 = (191, 0, 64)
   \<and> get_color_from_radius 250 = (255, 0, 0)
   \<and> fst (get_color_from_radius 50) \<le> fst (get_color_from_radius 100)
   \<and> snd (snd (get_color_from_radius 100)) \<le> snd (snd (get_color_from_radius 50))"
proof -
  have a: "get_color_from_radius 100 = spec_colorFromRadius 100"
    using color_mapper [of 100 0 0] by simp
  have b: "get_color_from_radius 250 = (255, 0, 0)"
    using color_mapper [of 250 0 0, THEN conjunct2, THEN conjunct2, THEN conjunct1] by simp
  have c: "fst (get_color_from_radius 50) \<le> fst (get_color_from_radius 100)
     \<and> snd (snd (get_color_from_radius 100)) \<le> snd (snd (get_color_from_radius 50))"
    using color_mapper [of 0 50 100] by simp
  have d: "get_color_from_radius 100 = (191, 0, 64)"
    by (simp add: color_red_blue py_int_def)
  show ?thesis using a b c d by simp
qed

subsection \<open>Integration\<close>

text \<open>
  Claim C7. For every body and every \<open>dt\<close>, \<open>update_position\<close> first adds
  \<open>acceleration * dt\<close> to the velocity, then adds the updated velocity times \<open>dt\<close> to
  the position, then resets the acceleration to \<open>(0, 0)\<close>; every other field keeps its
  value.
\<close>

theorem update_position_semi_implicit_euler:
  "update_position p dt =
     p \<lparr> x := x p + (vx p + ax p * dt) * dt,
         y := y p + (vy p + ay p * dt) * dt,
         vx := vx p + ax p * dt,
         vy := vy p + ay p * dt,
         ax := 0, ay := 0 \<rparr>"
  by (simp add: update_position_def Let_def)

subsection \<open>Gravity\<close>

lemma gravity_pull_ok:
  assumes "mass self \<noteq> 0"
  shows "gravity_pull self other =
     (let dx = x other - x self;
          dy = y other - y self;
          distance = sqrt (dx ^ 2 + dy ^ 2) + 1 / 100;
          force = of_int (GRAVITATIONAL_CONSTANT * mass self * mass other) / distance ^ 2
      in Inr (self \<lparr> ax := ax self + force * dx / (distance * of_int (mass self)),
                      ay := ay self + force * dy / (distance * of_int (mass self)) \<rparr>))"
proof -
  have "0 < sqrt ((x other - x self) ^ 2 + (y other - y self) ^ 2) + 1 / (100 :: real)"
    by (rule padded_distance_pos)
  then show ?thesis using assms
    by (simp add: gravity_pull_def py_div_def Let_def)
qed

lemma center_distance_pos: "0 < center_distance p"
  unfolding center_distance_def by (rule padded_distance_pos)

lemma apply_gravity_to_center_cases:
  "(\<not> is_largest p \<or> center_distance p < CENTER_THRESHOLD \<longrightarrow>
      apply_gravity_to_center p = Inr p)
   \<and> (is_largest p \<and> \<not> center_distance p < CENTER_THRESHOLD \<and> mass p \<noteq> 0 \<longrightarrow>
      apply_gravity_to_center p =
        (let dx = of_int (fst CENTER) - x p;
             dy = of_int (snd CENTER) - y p;
             distance = center_distance p;
             force = 0.5 * of_int GRAVITATIONAL_CONSTANT * (of_int (mass p)) ^ 2 / distance ^ 2
         in Inr (p \<lparr> ax := ax p + force * dx / (distance * of_int (mass p)),
                      ay := ay p + force * dy / (distance * of_int (mass p)) \<rparr>)))"
proof -
  let ?d = "sqrt ((of_int (fst CENTER) - x p) ^ 2 + (of_int (snd CENTER) - y p) ^ 2) + 1 / (100::real)"
  have pos: "?d \<noteq> 0" using padded_distance_pos [of "of_int (fst CENTER) - x p" "of_int (snd CENTER) - y p"] by simp
  show ?thesis using pos
    by (simp add: apply_gravity_to_center_def center_distance_def py_div_def Let_def
        power2_eq_square [of "real_of_int (mass p)"])
qed

text \<open>
  Claim C6. \<open>apply_gravity_to_center\<close> returns the body as it is, acceleration and
  every other field, when \<open>is_largest\<close> is false or when \<open>distance\<close> (the distance to
  \<open>CENTER\<close> plus the constant \<open>0.01\<close>, as the code computes it) is below
  \<open>CENTER_THRESHOLD\<close>. Otherwise, for a body whose mass is not zero, it adds to the
  acceleration the pull \<open>force * (dx, dy) / (distance * mass)\<close> towards the centre
  with \<open>force = 0.5 * G * mass\<^sup>2 / distance\<^sup>2\<close>, and changes nothing else.
\<close>

theorem apply_gravity_to_center_spec:
  "(\<not> is_largest p \<or> center_distance p < CENTER_THRESHOLD \<longrightarrow>
      apply_gravity_to_center p = Inr p)
   \<and> (is_largest p \<and> \<not> center_distance p < CENTER_THRESHOLD \<and> mass p \<noteq> 0 \<longrightarrow>
      apply_gravity_to_center p =
        (let dx = of_int (fst CENTER) - x p;
             dy = of_int (snd CENTER) - y p;
             distance = center_distance p;
             force = 0.5 * of_int GRAVITATIONAL_CONSTANT * (of_int (mass p)) ^ 2 / distance ^ 2
         in Inr (p \<lparr> ax := ax p + force * dx / (distance * of_int (mass p)),
                      ay := ay p + force * dy / (distance * of_int (mass p)) \<rparr>)))"
  by (rule apply_gravity_to_center_cases)

lemma sqrt_2500: "sqrt (2500::real) = 50"
  by (rule real_sqrt_unique) simp_all

theorem apply_gravity_to_center_spec_witness:
  "apply_gravity_to_center (Planet_init 0 0 5 0 0) = Inr (Planet_init 0 0 5 0 0)
   \<and> apply_gravity_to_center ((Planet_init 500 500 5 0 0) \<lparr> is_largest := True \<rparr>)
       = Inr ((Planet_init 500 500 5 0 0) \<lparr> is_largest := True \<rparr>)
   \<and> apply_gravity_to_center ((Planet_init 470 460 5 0 0) \<lparr> is_largest := True \<rparr>)
       = Inr ((Planet_init 470 460 5 0 0)
               \<lparr> ax := 0.5 * 5 * 5\<^sup>2 / 50.01\<^sup>2 * 30 / (50.01 * 5),
                 ay := 0.5 * 5 * 5\<^sup>2 / 50.01\<^sup>2 * 40 / (50.01 * 5),
                 is_largest := True \<rparr>)"
proof -
  have a: "\<not> is_largest (Planet_init 0 0 5 0 0)" by (simp add: Planet_init_def)
  have b: "center_distance ((Planet_init 500 500 5 0 0) \<lparr> is_largest := True \<rparr>) < CENTER_THRESHOLD"
    by (simp add: center_distance_def Planet_init_def CENTER_def WIDTH_def HEIGHT_def CENTER_THRESHOLD_def)
  have d: "center_distance ((Planet_init 470 460 5 0 0) \<lparr> is_largest := True \<rparr>) = 50.01"
    by (simp add: center_distance_def Planet_init_def CENTER_def WIDTH_def HEIGHT_def sqrt_2500)
  have c: "is_largest ((Planet_init 470 460 5 0 0) \<lparr> is_largest := True \<rparr>)
     \<and> \<not> center_distance ((Planet_init 470 460 5 0 0) \<lparr> is_largest := True \<rparr>) < CENTER_THRESHOLD
     \<and> mass ((Planet_init 470 460 5 0 0) \<lparr> is_largest := True \<rparr>) \<noteq> 0"
    by (simp add: d) (simp add: Planet_init_def MASS_MULTIPLIER_def CENTER_THRESHOLD_def)
  show ?thesis
    using apply_gravity_to_center_spec [of "Planet_init 0 0 5 0 0"] a
      apply_gravity_to_center_spec [of "(Planet_init 500 500 5 0 0) \<lparr> is_largest := True \<rparr>"] b
      apply_gravity_to_center_spec [of "(Planet_init 470 460 5 0 0) \<lparr> is_largest := True \<rparr>"] c
    by (simp add: d Let_def) (simp add: Planet_init_def MASS_MULTIPLIER_def GRAVITATIONAL_CONSTANT_def CENTER_def WIDTH_def HEIGHT_def)
qed

subsection \<open>Merge\<close>

lemma merge_ok:
  assumes "self \<noteq> other" and "mass (h self) + mass (h other) \<noteq> 0"
  shows "merge h self other =
     Inr (h (self := (h self)
       \<lparr> radius := py_int (sqrt (of_int ((radius (h self)) ^ 2 + (radius (h other)) ^ 2))),
         mass := mass (h self) + mass (h other),
         color := get_color_from_radius
                    (of_int (py_int (sqrt (of_int ((radius (h self)) ^ 2 + (radius (h other)) ^ 2))))),
         vx := (vx (h self) * of_int (mass (h self) + mass (h other))
                + vx (h other) * of_int (mass (h other)))
               / of_int (mass (h self) + mass (h other)),
         vy := (vy (h self) * of_int (mass (h self) + mass (h other))
                + vy (h other) * of_int (mass (h other)))
               / of_int (mass (h self) + mass (h other)) \<rparr>))"
proof -
  have nn: "\<not> real_of_int ((radius (h self))\<^sup>2 + (radius (h other))\<^sup>2) < 0"
    by (simp add: not_less)
  have nn2: "(0::real) \<le> sqrt (real_of_int ((radius (h self))\<^sup>2 + (radius (h other))\<^sup>2))"
    by simp
  have m: "real_of_int (mass (h self)) + real_of_int (mass (h other)) \<noteq> 0"
    using assms(2) by (metis of_int_add of_int_eq_0_iff)
  show ?thesis
    using assms(1) nn nn2 m
    by (simp add: merge_def math_sqrt_def py_div_def Let_def del: of_int_add of_int_power)
qed

lemma sqrt_25: "sqrt (25::real) = 5"
  by (rule real_sqrt_unique) simp_all

text \<open>
  Claim C4. For two different bodies whose masses do not sum to zero, \<open>merge\<close> of the
  second into the first sets the radius of the first to \<open>sqrt(r1\<^sup>2 + r2\<^sup>2)\<close> truncated to
  an integer, its mass to \<open>m1 + m2\<close>, its colour to \<open>get_color_from_radius\<close> of the
  new radius, and each component of its velocity to
  \<open>(v1 * (m1 + m2) + v2 * m2) / (m1 + m2)\<close>: the own velocity is weighted by the mass
  that was already updated, the other velocity by the other body's mass. Nothing else
  changes in the store. Radii 3 and 4 merge to radius 5.
\<close>

theorem merge_spec:
  assumes "self \<noteq> other" and "mass (h self) + mass (h other) \<noteq> 0"
  shows "merge h self other =
     (let r1 = radius (h self); r2 = radius (h other);
          m1 = mass (h self); m2 = mass (h other);
          new_radius = py_int (sqrt (of_int (r1 ^ 2 + r2 ^ 2)))
      in Inr (h (self := (h self)
           \<lparr> radius := new_radius,
             mass := m1 + m2,
             color := get_color_from_radius (of_int new_radius),
             vx := (vx (h self) * of_int (m1 + m2) + vx (h other) * of_int m2) / of_int (m1 + m2),
             vy := (vy (h self) * of_int (m1 + m2) + vy (h other) * of_int m2) / of_int (m1 + m2) \<rparr>)))
   \<and> (radius (h self) = 3 \<and> radius (h other) = 4 \<longrightarrow>
        (\<exists>h'. merge h self other = Inr h' \<and> radius (h' self) = 5))"
proof
  show "merge h self other =
     (let r1 = radius (h self); r2 = radius (h other);
          m1 = mass (h self); m2 = mass (h other);
          new_radius = py_int (sqrt (of_int (r1 ^ 2 + r2 ^ 2)))
      in Inr (h (self := (h self)
           \<lparr> radius := new_radius,
             mass := m1 + m2,
             color := get_color_from_radius (of_int new_radius),
             vx := (vx (h self) * of_int (m1 + m2) + vx (h other) * of_int m2) / of_int (m1 + m2),
             vy := (vy (h self) * of_int (m1 + m2) + vy (h other) * of_int m2) / of_int (m1 + m2) \<rparr>)))"
    using merge_ok [OF assms] by (simp add: Let_def)
  show "radius (h self) = 3 \<and> radius (h other) = 4 \<longrightarrow>
        (\<exists>h'. merge h self other = Inr h' \<and> radius (h' self) = 5)"
    using merge_ok [OF assms] by (simp add: sqrt_25)
qed

theorem merge_spec_witness:
  "(case merge two_bodies 0 1 of
      Inl e \<Rightarrow> False
    | Inr h' \<Rightarrow>
        h' 0 = (Planet_init 0 0 3 1 0)
                 \<lparr> radius := 5, mass := 7, color := (131, 0, 124), vx := 1, vy := 8 / 7 \<rparr>
        \<and> h' 1 = Planet_init 1 0 4 0 2)"
proof -
  have a: "(0::nat) \<noteq> 1" by simp
  have b: "mass (two_bodies 0) + mass (two_bodies 1) \<noteq> 0"
    by (simp add: two_bodies_def Planet_init_def MASS_MULTIPLIER_def)
  note m = merge_spec [OF a b, THEN conjunct1]
  show ?thesis
    unfolding m
    by (simp add: Let_def two_bodies_def Planet_init_def MASS_MULTIPLIER_def sqrt_25 color_red_blue)
       (simp add: py_int_def)
qed

subsection \<open>The passes of a tick succeed and keep the invariants\<close>

lemma merge_only_refl [simp]: "merge_only p p"
  by (simp add: merge_only_def)

lemma merge_only_trans: "merge_only p q \<Longrightarrow> merge_only q r \<Longrightarrow> merge_only p r"
  by (simp add: merge_only_def)

lemma acc_only_refl [simp]: "acc_only p p"
  by (simp add: acc_only_def)

lemma acc_only_trans: "acc_only p q \<Longrightarrow> acc_only q r \<Longrightarrow> acc_only p r"
  by (simp add: acc_only_def)

lemma merge_radius_bounds:
  assumes "0 \<le> r1" and "0 \<le> r2"
  shows "r1 \<le> py_int (sqrt (of_int (r1 ^ 2 + r2 ^ 2)))"
    and "py_int (sqrt (of_int (r1 ^ 2 + r2 ^ 2))) \<le> r1 + r2"
proof -
  let ?v = "sqrt (real_of_int (r1 ^ 2 + r2 ^ 2))"
  have nn: "0 \<le> ?v" by simp
  have "sqrt ((of_int r1) ^ 2) \<le> ?v"
    by (simp del: real_sqrt_abs)
  then have lo: "of_int r1 \<le> ?v" using assms by simp
  have "real_of_int (r1 ^ 2 + r2 ^ 2) \<le> (of_int (r1 + r2)) ^ 2"
    using assms by (simp add: power2_sum)
  then have "?v \<le> sqrt ((of_int (r1 + r2)) ^ 2)"
    using real_sqrt_le_iff by blast
  then have hi: "?v \<le> of_int (r1 + r2)" using assms by simp
  show "r1 \<le> py_int ?v" using lo nn by (simp add: py_int_def le_floor_iff)
  show "py_int ?v \<le> r1 + r2" using hi nn by (simp add: py_int_def floor_le_iff)
qed

lemma merge_body_inv:
  assumes "a \<noteq> b" and "body_inv (h a)" and "body_inv (h b)"
  shows "\<exists>h'. merge h a b = Inr h' \<and> body_inv (h' a) \<and> merge_only (h a) (h' a)
           \<and> (\<forall>c. c \<noteq> a \<longrightarrow> h' c = h c)
           \<and> mass (h' a) = mass (h a) + mass (h b)"
proof -
  have m: "mass (h a) + mass (h b) \<noteq> 0" using assms by (simp add: body_inv_def)
  have r: "0 \<le> radius (h a)" "0 \<le> radius (h b)"
    using assms by (simp_all add: body_inv_def MIN_RADIUS_def)
  have mm: "radius (h a) \<le> mass (h a)" "radius (h b) \<le> mass (h b)" "MIN_RADIUS \<le> radius (h a)"
    using assms by (simp_all add: body_inv_def MASS_MULTIPLIER_def)
  show ?thesis
    using merge_radius_bounds [OF r] mm assms(2,3)
    by (simp add: merge_ok [OF assms(1) m] body_inv_def merge_only_def MASS_MULTIPLIER_def
             del: of_int_add of_int_power)
qed

lemma check_collision_total:
  assumes "a \<noteq> b" and "body_inv (h a)" and "body_inv (h b)"
  shows "\<exists>h' hit. check_collision h a b = Inr (h', hit) \<and> body_inv (h' a)
           \<and> merge_only (h a) (h' a) \<and> (\<forall>c. c \<noteq> a \<longrightarrow> h' c = h c)
           \<and> (\<not> hit \<longrightarrow> h' = h) \<and> (cls (h a) \<noteq> Planet \<longrightarrow> \<not> hit)"
proof (cases "cls (h a)")
  case Planet
  obtain h' where h': "merge h a b = Inr h'" "body_inv (h' a)" "merge_only (h a) (h' a)"
      "\<forall>c. c \<noteq> a \<longrightarrow> h' c = h c"
    using merge_body_inv [OF assms] by blast
  show ?thesis
    using Planet h' assms(2)
    by (auto simp add: check_collision_def Planet_check_collision_def Let_def)
next
  case NonCollidingPlanet
  then show ?thesis using assms(2)
    by (auto simp add: check_collision_def NonCollidingPlanet_check_collision_def)
next
  case GhostPlanet
  then show ?thesis using assms(2)
    by (auto simp add: check_collision_def NonCollidingPlanet_check_collision_def)
qed


lemma collide_with_total:
  assumes "a \<notin> set bs" and "body_inv (h a)" and "\<forall>c \<in> set bs. body_inv (h c)"
    and "distinct rem"
  shows "\<exists>h' rem'. collide_with a bs (h, rem) = Inr (h', rem') \<and> body_inv (h' a)
           \<and> merge_only (h a) (h' a) \<and> (\<forall>c. c \<noteq> a \<longrightarrow> h' c = h c)
           \<and> distinct rem' \<and> set rem \<subseteq> set rem' \<and> set rem' \<subseteq> set rem \<union> set bs
           \<and> (rem' = [] \<longrightarrow> h' = h)
           \<and> (cls (h a) \<noteq> Planet \<longrightarrow> h' = h \<and> rem' = rem)"
  using assms
proof (induction bs arbitrary: h rem)
  case Nil
  then show ?case by simp
next
  case (Cons b bs)
  have ab: "a \<noteq> b" using Cons.prems(1) by auto
  have bb: "body_inv (h b)" using Cons.prems(3) by simp
  obtain h1 hit where c: "check_collision h a b = Inr (h1, hit)" "body_inv (h1 a)"
      "merge_only (h a) (h1 a)" "\<forall>c. c \<noteq> a \<longrightarrow> h1 c = h c" "\<not> hit \<longrightarrow> h1 = h"
      "cls (h a) \<noteq> Planet \<longrightarrow> \<not> hit"
    using check_collision_total [OF ab Cons.prems(2) bb] by blast
  let ?rem1 = "if hit then List.insert b rem else rem"
  have p1: "a \<notin> set bs" using Cons.prems(1) by simp
  have p3: "\<forall>c \<in> set bs. body_inv (h1 c)" using Cons.prems(1,3) c(4) by auto
  have p4: "distinct ?rem1" using Cons.prems(4) by simp
  obtain h' rem' where r: "collide_with a bs (h1, ?rem1) = Inr (h', rem')" "body_inv (h' a)"
      "merge_only (h1 a) (h' a)" "\<forall>c. c \<noteq> a \<longrightarrow> h' c = h1 c"
      "distinct rem'" "set ?rem1 \<subseteq> set rem'" "set rem' \<subseteq> set ?rem1 \<union> set bs"
      "rem' = [] \<longrightarrow> h' = h1" "cls (h1 a) \<noteq> Planet \<longrightarrow> h' = h1 \<and> rem' = ?rem1"
    using Cons.IH [OF p1 c(2) p3 p4] by blast
  have e: "collide_with a (b # bs) (h, rem) = Inr (h', rem')"
    using c(1) r(1) by simp
  have cl: "cls (h1 a) = cls (h a)" using c(3) by (simp add: merge_only_def)
  have hitrem: "hit \<longrightarrow> rem' \<noteq> []" using r(6) by auto
  show ?case
    using e r(2) merge_only_trans [OF c(3) r(3)] c(4) r(4) r(5) r(6) r(7) r(8) c(5) c(6) r(9) cl hitrem
    by (auto split: if_splits)
qed

lemma collision_pass_total:
  assumes "distinct ps" and "\<forall>c \<in> set ps. body_inv (h c)" and "distinct rem"
  shows "\<exists>h' rem'. collision_pass ps (h, rem) = Inr (h', rem')
           \<and> (\<forall>c \<in> set ps. body_inv (h' c))
           \<and> (\<forall>c. merge_only (h c) (h' c)) \<and> (\<forall>c. c \<notin> set ps \<longrightarrow> h' c = h c)
           \<and> distinct rem' \<and> set rem \<subseteq> set rem' \<and> set rem' \<subseteq> set rem \<union> set ps
           \<and> (rem' = [] \<longrightarrow> h' = h)"
  using assms
proof (induction ps arbitrary: h rem)
  case Nil
  then show ?case by simp
next
  case (Cons a ps)
  have p1: "a \<notin> set ps" using Cons.prems(1) by simp
  obtain h1 rem1 where c: "collide_with a ps (h, rem) = Inr (h1, rem1)" "body_inv (h1 a)"
      "merge_only (h a) (h1 a)" "\<forall>c. c \<noteq> a \<longrightarrow> h1 c = h c"
      "distinct rem1" "set rem \<subseteq> set rem1" "set rem1 \<subseteq> set rem \<union> set ps"
      "rem1 = [] \<longrightarrow> h1 = h"
    using collide_with_total [OF p1, of h rem] Cons.prems by auto
  have q1: "distinct ps" using Cons.prems(1) by simp
  have q2: "\<forall>c \<in> set ps. body_inv (h1 c)" using Cons.prems(2) c(4) p1 by auto
  obtain h' rem' where r: "collision_pass ps (h1, rem1) = Inr (h', rem')"
      "\<forall>c \<in> set ps. body_inv (h' c)" "\<forall>c. merge_only (h1 c) (h' c)"
      "\<forall>c. c \<notin> set ps \<longrightarrow> h' c = h1 c" "distinct rem'" "set rem1 \<subseteq> set rem'"
      "set rem' \<subseteq> set rem1 \<union> set ps" "rem' = [] \<longrightarrow> h' = h1"
    using Cons.IH [OF q1 q2 c(5)] by blast
  have e: "collision_pass (a # ps) (h, rem) = Inr (h', rem')"
    using c(1) r(1) by simp
  have mo: "\<forall>c. merge_only (h c) (h' c)"
  proof
    fix c
    have "merge_only (h c) (h1 c)" using c(3,4) by (cases "c = a") simp_all
    then show "merge_only (h c) (h' c)" using r(3) merge_only_trans by blast
  qed
  have ba: "body_inv (h' a)" using r(4) p1 c(2) by simp
  have emp: "rem' = [] \<longrightarrow> h' = h" using r(6) r(8) c(8) by auto
  show ?case
    using e r(2) mo ba c(4) r(4) r(5) c(6) r(6) c(7) r(7) emp
    by auto
qed

lemma remove_planets_total:
  assumes "distinct ps" and "distinct rem" and "set rem \<subseteq> set ps"
  shows "\<exists>ps'. remove_planets ps rem = Inr ps' \<and> distinct ps' \<and> set ps' = set ps - set rem"
  using assms
proof (induction rem arbitrary: ps)
  case Nil
  then show ?case by simp
next
  case (Cons a rem)
  have a: "a \<in> set ps" using Cons.prems(3) by simp
  have d: "distinct (remove1 a ps)" using Cons.prems(1) by simp
  have s: "set rem \<subseteq> set (remove1 a ps)" using Cons.prems by auto
  obtain ps' where r: "remove_planets (remove1 a ps) rem = Inr ps'" "distinct ps'"
      "set ps' = set (remove1 a ps) - set rem"
    using Cons.IH [OF d _ s] Cons.prems(2) by auto
  show ?case using a r Cons.prems(1) by (auto simp add: list_remove_def)
qed


lemma apply_gravity_total:
  assumes "mass p \<noteq> 0"
  shows "\<exists>q. apply_gravity p other = Inr q \<and> acc_only p q"
  using assms
  by (cases "cls p")
     (simp_all add: apply_gravity_def Planet_apply_gravity_def GhostPlanet_apply_gravity_def
        gravity_pull_ok Let_def acc_only_def)

lemma apply_gravity_to_center_total:
  assumes "mass p \<noteq> 0"
  shows "\<exists>q. apply_gravity_to_center p = Inr q \<and> acc_only p q"
proof (cases "\<not> is_largest p \<or> center_distance p < CENTER_THRESHOLD")
  case True
  then show ?thesis using apply_gravity_to_center_cases [of p] by auto
next
  case False
  then show ?thesis using apply_gravity_to_center_cases [of p] assms
    by (simp add: Let_def acc_only_def)
qed

lemma gravity_from_total:
  assumes "mass (h a) \<noteq> 0"
  shows "\<exists>h'. gravity_from a bs h = Inr h' \<and> acc_only (h a) (h' a)
           \<and> (\<forall>c. c \<noteq> a \<longrightarrow> h' c = h c)"
  using assms
proof (induction bs arbitrary: h)
  case Nil
  then show ?case by simp
next
  case (Cons b bs)
  show ?case
  proof (cases "a = b")
    case True
    then show ?thesis using Cons.IH [of h] Cons.prems by simp
  next
    case False
    obtain q where q: "apply_gravity (h a) (h b) = Inr q" "acc_only (h a) q"
      using apply_gravity_total [OF Cons.prems] by blast
    let ?h1 = "h (a := q)"
    have m: "mass (?h1 a) \<noteq> 0" using q(2) Cons.prems by (simp add: acc_only_def)
    obtain h' where r: "gravity_from a bs ?h1 = Inr h'" "acc_only (?h1 a) (h' a)"
        "\<forall>c. c \<noteq> a \<longrightarrow> h' c = ?h1 c"
      using Cons.IH [of ?h1] m by blast
    have "acc_only (h a) (h' a)" using q(2) r(2) acc_only_trans [of "h a" q "h' a"] by simp
    then show ?thesis using False q(1) r(1) r(3) by simp
  qed
qed

lemma force_pass_total:
  assumes "\<forall>c \<in> set ps. mass (h c) \<noteq> 0"
  shows "\<exists>h'. force_pass all ps h = Inr h' \<and> (\<forall>c. acc_only (h c) (h' c))
           \<and> (\<forall>c. c \<notin> set ps \<longrightarrow> h' c = h c)"
  using assms
proof (induction ps arbitrary: h)
  case Nil
  then show ?case by simp
next
  case (Cons a ps)
  have ma: "mass (h a) \<noteq> 0" using Cons.prems by simp
  obtain h1 where g: "gravity_from a all h = Inr h1" "acc_only (h a) (h1 a)"
      "\<forall>c. c \<noteq> a \<longrightarrow> h1 c = h c"
    using gravity_from_total [of h a all] ma by blast
  have m1: "mass (h1 a) \<noteq> 0" using g(2) ma by (simp add: acc_only_def)
  obtain q where q: "apply_gravity_to_center (h1 a) = Inr q" "acc_only (h1 a) q"
    using apply_gravity_to_center_total [OF m1] by blast
  let ?h2 = "h1 (a := q)"
  have aq: "acc_only (h a) q" using g(2) q(2) acc_only_trans by blast
  have a2: "\<forall>c. acc_only (h c) (?h2 c)" using aq g(3) by simp
  have m2: "\<forall>c \<in> set ps. mass (?h2 c) \<noteq> 0"
    using Cons.prems a2 by (simp add: acc_only_def)
  obtain h' where r: "force_pass all ps ?h2 = Inr h'" "\<forall>c. acc_only (?h2 c) (h' c)"
      "\<forall>c. c \<notin> set ps \<longrightarrow> h' c = ?h2 c"
    using Cons.IH [of ?h2] m2 by blast
  have "\<forall>c. acc_only (h c) (h' c)" using a2 r(2) acc_only_trans by blast
  then show ?case using g(1) q(1) r(1) r(3) g(3) by simp
qed

lemma integration_pass_eq:
  assumes "distinct ps"
  shows "integration_pass ps dt h = (\<lambda>c. if c \<in> set ps then update_position (h c) dt else h c)"
  using assms
proof (induction ps arbitrary: h)
  case Nil
  then show ?case by simp
next
  case (Cons a ps)
  then show ?case by (auto simp add: fun_eq_iff)
qed


lemma body_inv_acc_only: "acc_only p q \<Longrightarrow> body_inv q = body_inv p"
  by (simp add: acc_only_def body_inv_def)

lemma body_inv_update_position [simp]: "body_inv (update_position p dt) = body_inv p"
  by (simp add: update_position_def Let_def body_inv_def)

lemma tick_total:
  assumes "distinct (planets s)" and "\<forall>c \<in> set (planets s). body_inv (heap s c)"
  shows "\<exists>h1 rem ps h2.
           collision_pass (planets s) (heap s, []) = Inr (h1, rem)
           \<and> remove_planets (planets s) rem = Inr ps
           \<and> force_pass ps ps h1 = Inr h2
           \<and> tick dt s = Inr (s \<lparr> heap := (\<lambda>c. if c \<in> set ps then update_position (h2 c) dt else h2 c),
                                  planets := ps \<rparr>)
           \<and> distinct ps \<and> set ps = set (planets s) - set rem
           \<and> (\<forall>c. merge_only (heap s c) (h1 c))
           \<and> (\<forall>c. c \<notin> set (planets s) \<longrightarrow> h1 c = heap s c)
           \<and> (\<forall>c \<in> set (planets s). body_inv (h1 c))
           \<and> (rem = [] \<longrightarrow> h1 = heap s)
           \<and> (\<forall>c. acc_only (h1 c) (h2 c))
           \<and> (\<forall>c. c \<notin> set ps \<longrightarrow> h2 c = h1 c)"
proof -
  obtain h1 rem where c: "collision_pass (planets s) (heap s, []) = Inr (h1, rem)"
      "\<forall>c \<in> set (planets s). body_inv (h1 c)" "\<forall>c. merge_only (heap s c) (h1 c)"
      "\<forall>c. c \<notin> set (planets s) \<longrightarrow> h1 c = heap s c" "distinct rem"
      "set rem \<subseteq> set (planets s)" "rem = [] \<longrightarrow> h1 = heap s"
    using collision_pass_total [OF assms, of "[]"] by auto
  obtain ps where r: "remove_planets (planets s) rem = Inr ps" "distinct ps"
      "set ps = set (planets s) - set rem"
    using remove_planets_total [OF assms(1) c(5) c(6)] by blast
  have m: "\<forall>c \<in> set ps. mass (h1 c) \<noteq> 0" using c(2) r(3) by (auto simp add: body_inv_def)
  obtain h2 where f: "force_pass ps ps h1 = Inr h2" "\<forall>c. acc_only (h1 c) (h2 c)"
      "\<forall>c. c \<notin> set ps \<longrightarrow> h2 c = h1 c"
    using force_pass_total [of ps h1 ps] m by blast
  have t: "tick dt s = Inr (s \<lparr> heap := (\<lambda>c. if c \<in> set ps then update_position (h2 c) dt else h2 c),
                                planets := ps \<rparr>)"
    using c(1) r(1) f(1) by (simp add: tick_def integration_pass_eq [OF r(2)])
  show ?thesis using c r f t by blast
qed

lemma sim_invI:
  assumes "\<And>a. a \<in> set (planets s) \<Longrightarrow> a < next_addr s"
    and "distinct (planets s)"
    and "\<And>a. a < next_addr s \<Longrightarrow> body_inv (heap s a)"
    and "\<And>a. a < next_addr s \<Longrightarrow> is_collidable (heap s a) \<longleftrightarrow> cls (heap s a) = Planet"
    and "\<And>a. a < next_addr s \<Longrightarrow> is_largest (heap s a) \<Longrightarrow> largest_planet s = Some a"
    and "\<And>l. largest_planet s = Some l \<Longrightarrow> l < next_addr s"
    and "setting_velocity s \<Longrightarrow> main_radius s \<noteq> None"
    and "\<And>r. main_radius s = Some r \<Longrightarrow> MIN_RADIUS \<le> r"
  shows "sim_inv s"
  unfolding sim_inv_def using assms by blast

lemma sim_invD:
  assumes "sim_inv s"
  shows "a \<in> set (planets s) \<Longrightarrow> a < next_addr s"
    and "distinct (planets s)"
    and "a < next_addr s \<Longrightarrow> body_inv (heap s a)"
    and "a < next_addr s \<Longrightarrow> is_collidable (heap s a) \<longleftrightarrow> cls (heap s a) = Planet"
    and "a < next_addr s \<Longrightarrow> is_largest (heap s a) \<Longrightarrow> largest_planet s = Some a"
    and "largest_planet s = Some l \<Longrightarrow> l < next_addr s"
    and "setting_velocity s \<Longrightarrow> main_radius s \<noteq> None"
    and "main_radius s = Some r \<Longrightarrow> MIN_RADIUS \<le> r"
  using assms unfolding sim_inv_def by blast+

lemma tick_sim_inv:
  assumes "sim_inv s"
  shows "\<exists>s'. tick dt s = Inr s' \<and> sim_inv s'
           \<and> largest_planet s' = largest_planet s \<and> next_addr s' = next_addr s
           \<and> set (planets s') \<subseteq> set (planets s)
           \<and> (\<forall>c. cls (heap s' c) = cls (heap s c)
                  \<and> is_largest (heap s' c) = is_largest (heap s c)
                  \<and> is_collidable (heap s' c) = is_collidable (heap s c))"
proof -
  note inv = sim_invD [OF assms]
  have d: "distinct (planets s)" by (rule inv(2))
  have b: "\<forall>c \<in> set (planets s). body_inv (heap s c)" using inv(1) inv(3) by blast
  obtain h1 rem ps h2 where t:
      "tick dt s = Inr (s \<lparr> heap := (\<lambda>c. if c \<in> set ps then update_position (h2 c) dt else h2 c),
                            planets := ps \<rparr>)"
      "distinct ps" "set ps = set (planets s) - set rem"
      "\<forall>c. merge_only (heap s c) (h1 c)"
      "\<forall>c. c \<notin> set (planets s) \<longrightarrow> h1 c = heap s c"
      "\<forall>c \<in> set (planets s). body_inv (h1 c)"
      "\<forall>c. acc_only (h1 c) (h2 c)"
    using tick_total [OF d b, of dt] by blast
  define h3 where "h3 = (\<lambda>c. if c \<in> set ps then update_position (h2 c) dt else h2 c)"
  define s' where "s' = s \<lparr> heap := h3, planets := ps \<rparr>"
  have ts: "tick dt s = Inr s'" using t(1) by (simp add: s'_def h3_def)
  have sel: "heap s' = h3" "planets s' = ps" "next_addr s' = next_addr s"
      "largest_planet s' = largest_planet s" "setting_velocity s' = setting_velocity s"
      "main_radius s' = main_radius s"
    by (simp_all add: s'_def)
  have fl: "cls (h3 c) = cls (heap s c) \<and> is_largest (h3 c) = is_largest (heap s c)
              \<and> is_collidable (h3 c) = is_collidable (heap s c)" for c
  proof -
    have 1: "merge_only (heap s c) (h1 c)" using t(4) by simp
    have 2: "acc_only (h1 c) (h2 c)" using t(7) by simp
    show ?thesis
      using 1 2 by (simp add: h3_def merge_only_def acc_only_def update_position_def Let_def)
  qed
  have bi': "body_inv (h3 c)" if c: "c < next_addr s" for c
  proof -
    have "body_inv (h1 c)"
    proof (cases "c \<in> set (planets s)")
      case True then show ?thesis using t(6) by simp
    next
      case False then show ?thesis using t(5) inv(3) c by simp
    qed
    then have "body_inv (h2 c)" using t(7) body_inv_acc_only by blast
    then show "body_inv (h3 c)" by (simp add: h3_def)
  qed
  have "sim_inv s'"
  proof (rule sim_invI)
    show "a < next_addr s'" if "a \<in> set (planets s')" for a
      using that t(3) inv(1) by (simp add: sel)
    show "distinct (planets s')" using t(2) by (simp add: sel)
    show "body_inv (heap s' a)" if "a < next_addr s'" for a
      using that bi' by (simp add: sel)
    show "is_collidable (heap s' a) \<longleftrightarrow> cls (heap s' a) = Planet" if "a < next_addr s'" for a
      using that fl [of a] inv(4) [of a] by (simp add: sel)
    show "largest_planet s' = Some a" if "a < next_addr s'" "is_largest (heap s' a)" for a
      using that fl [of a] inv(5) [of a] by (simp add: sel)
    show "l < next_addr s'" if "largest_planet s' = Some l" for l
      using that inv(6) by (simp add: sel)
    show "main_radius s' \<noteq> None" if "setting_velocity s'"
      using that inv(7) by (simp add: sel)
    show "MIN_RADIUS \<le> r" if "main_radius s' = Some r" for r
      using that inv(8) by (simp add: sel)
  qed
  moreover have "set (planets s') \<subseteq> set (planets s)" using t(3) by (auto simp add: sel)
  ultimately show ?thesis using ts fl by (simp add: sel)
qed

lemma append_new_simps [simp]:
  "planets (append_new p s) = planets s @ [next_addr s]"
  "next_addr (append_new p s) = Suc (next_addr s)"
  "heap (append_new p s) = (heap s) (next_addr s := p)"
  "largest_planet (append_new p s) = largest_planet s"
  "setting_velocity (append_new p s) = setting_velocity s"
  "creating_planet (append_new p s) = creating_planet s"
  "main_radius (append_new p s) = main_radius s"
  by (simp_all add: append_new_def)

lemma body_inv_init:
  assumes "MIN_RADIUS \<le> r"
  shows "body_inv (Planet_init px py r pvx pvy)"
    and "body_inv (NonCollidingPlanet_init px py r pvx pvy)"
    and "body_inv (GhostPlanet_init px py r pvx pvy)"
  using assms
  by (simp_all add: body_inv_def Planet_init_def NonCollidingPlanet_init_def GhostPlanet_init_def
        MASS_MULTIPLIER_def MIN_RADIUS_def)

lemma init_flags [simp]:
  "\<not> is_largest (Planet_init px py r pvx pvy)"
  "\<not> is_largest (NonCollidingPlanet_init px py r pvx pvy)"
  "\<not> is_largest (GhostPlanet_init px py r pvx pvy)"
  "is_collidable (Planet_init px py r pvx pvy)"
  "\<not> is_collidable (NonCollidingPlanet_init px py r pvx pvy)"
  "\<not> is_collidable (GhostPlanet_init px py r pvx pvy)"
  "cls (Planet_init px py r pvx pvy) = Planet"
  "cls (NonCollidingPlanet_init px py r pvx pvy) = NonCollidingPlanet"
  "cls (GhostPlanet_init px py r pvx pvy) = GhostPlanet"
  "radius (Planet_init px py r pvx pvy) = r"
  "radius (NonCollidingPlanet_init px py r pvx pvy) = r"
  "radius (GhostPlanet_init px py r pvx pvy) = r"
  by (simp_all add: Planet_init_def NonCollidingPlanet_init_def GhostPlanet_init_def)

lemma append_new_sim_inv:
  assumes "sim_inv s" and "body_inv p" and "\<not> is_largest p"
    and "is_collidable p \<longleftrightarrow> cls p = Planet"
  shows "sim_inv (append_new p s)"
proof (rule sim_invI)
  note inv = sim_invD [OF assms(1)]
  let ?s = "append_new p s"
  show "a < next_addr ?s" if "a \<in> set (planets ?s)" for a
    using that inv(1) [of a] by auto
  show "distinct (planets ?s)" using inv(2) inv(1) [of "next_addr s"] by auto
  show "body_inv (heap ?s a)" if "a < next_addr ?s" for a
    using that inv(3) [of a] assms(2) by (auto simp add: less_Suc_eq)
  show "is_collidable (heap ?s a) \<longleftrightarrow> cls (heap ?s a) = Planet" if "a < next_addr ?s" for a
    using that inv(4) [of a] assms(4) by (auto simp add: less_Suc_eq)
  show "largest_planet ?s = Some a" if "a < next_addr ?s" "is_largest (heap ?s a)" for a
    using that inv(5) [of a] assms(3) by (auto simp add: less_Suc_eq split: if_splits)
  show "l < next_addr ?s" if "largest_planet ?s = Some l" for l
    using that inv(6) [of l] by simp
  show "main_radius ?s \<noteq> None" if "setting_velocity ?s"
    using that inv(7) by simp
  show "MIN_RADIUS \<le> r" if "main_radius ?s = Some r" for r
    using that inv(8) by simp
qed

text \<open>What lines 189 to 193 do to the state, by cases.\<close>

lemma update_largest_cases:
  "update_largest n s =
     (case largest_planet s of
        None \<Rightarrow> s \<lparr> largest_planet := Some n,
                     heap := (heap s) (n := (heap s n) \<lparr> is_largest := True \<rparr>) \<rparr>
      | Some l \<Rightarrow>
          if radius (heap s l) < radius (heap s n)
          then s \<lparr> largest_planet := Some n,
                   heap := ((heap s) (l := (heap s l) \<lparr> is_largest := False \<rparr>))
                             (n := (((heap s) (l := (heap s l) \<lparr> is_largest := False \<rparr>)) n)
                                     \<lparr> is_largest := True \<rparr>) \<rparr>
          else s)"
  by (simp add: update_largest_def Let_def split: option.split)

lemma update_largest_sels [simp]:
  "planets (update_largest n s) = planets s"
  "next_addr (update_largest n s) = next_addr s"
  "setting_velocity (update_largest n s) = setting_velocity s"
  "creating_planet (update_largest n s) = creating_planet s"
  "main_radius (update_largest n s) = main_radius s"
  by (simp_all add: update_largest_cases split: option.split)

lemma update_largest_heap:
  "heap (update_largest n s) a =
     (if largest_planet (update_largest n s) = largest_planet s then heap s a
      else if a = n then (heap s n) \<lparr> is_largest := True \<rparr>
      else if largest_planet s = Some a then (heap s a) \<lparr> is_largest := False \<rparr>
      else heap s a)"
  if "largest_planet s \<noteq> Some n"
  using that by (auto simp add: update_largest_cases split: option.split)

lemma update_largest_largest:
  "largest_planet (update_largest n s) = largest_planet s
   \<or> largest_planet (update_largest n s) = Some n"
  by (simp add: update_largest_cases split: option.split)

lemma body_inv_is_largest_update [simp]: "body_inv (p \<lparr> is_largest := b \<rparr>) = body_inv p"
  by (simp add: body_inv_def)

lemma update_largest_sim_inv:
  assumes "sim_inv s" and "n < next_addr s" and "largest_planet s \<noteq> Some n"
  shows "sim_inv (update_largest n s)"
proof (rule sim_invI)
  note inv = sim_invD [OF assms(1)]
  note hp = update_largest_heap [OF assms(3)]
  let ?s = "update_largest n s"
  show "a < next_addr ?s" if "a \<in> set (planets ?s)" for a
    using that inv(1) [of a] by simp
  show "distinct (planets ?s)" using inv(2) by simp
  show "body_inv (heap ?s a)" if "a < next_addr ?s" for a
    using that inv(3) [of a] inv(3) [of n] assms(2) by (auto simp add: hp)
  show "is_collidable (heap ?s a) \<longleftrightarrow> cls (heap ?s a) = Planet" if "a < next_addr ?s" for a
    using that inv(4) [of a] inv(4) [of n] assms(2) by (auto simp add: hp)
  show "largest_planet ?s = Some a" if "a < next_addr ?s" "is_largest (heap ?s a)" for a
    using that inv(5) [of a] update_largest_largest [of n s]
    by (auto simp add: hp split: if_splits)
  show "l < next_addr ?s" if "largest_planet ?s = Some l" for l
    using that inv(6) [of l] update_largest_largest [of n s] assms(2) by auto
  show "main_radius ?s \<noteq> None" if "setting_velocity ?s"
    using that inv(7) by simp
  show "MIN_RADIUS \<le> r" if "main_radius ?s = Some r" for r
    using that inv(8) by simp
qed

text \<open>The second release of the button, in the state that waits for the velocity.\<close>

lemma create_planet_step:
  assumes "\<not> creating_planet s" and "setting_velocity s" and "main_radius s = Some r"
  shows "handle_event s (MOUSEBUTTONUP 1 ticks pos) =
     Inr (update_largest (next_addr s)
            (append_new
               (Planet_init (of_int (fst (creation_start_pos s))) (of_int (snd (creation_start_pos s))) r
                  (of_int (fst pos - fst (creation_start_pos s)) * (5 / 100))
                  (of_int (snd pos - snd (creation_start_pos s)) * (5 / 100)))
               (s \<lparr> velocity_target_pos := pos, setting_velocity := False \<rparr>)))"
  using assms by (simp add: Let_def)

lemma sim_inv_cong:
  assumes "sim_inv s"
    and "planets s' = planets s \<or> planets s' = []" and "next_addr s' = next_addr s"
    and "heap s' = heap s" and "largest_planet s' = largest_planet s"
    and "setting_velocity s' \<longrightarrow> main_radius s' \<noteq> None"
    and "\<forall>r. main_radius s' = Some r \<longrightarrow> MIN_RADIUS \<le> r"
  shows "sim_inv s'"
proof (rule sim_invI)
  note inv = sim_invD [OF assms(1)]
  show "a < next_addr s'" if "a \<in> set (planets s')" for a
    using that inv(1) [of a] assms(2,3) by auto
  show "distinct (planets s')" using inv(2) assms(2) by auto
  show "body_inv (heap s' a)" if "a < next_addr s'" for a
    using that inv(3) [of a] assms(3,4) by simp
  show "is_collidable (heap s' a) \<longleftrightarrow> cls (heap s' a) = Planet" if "a < next_addr s'" for a
    using that inv(4) [of a] assms(3,4) by simp
  show "largest_planet s' = Some a" if "a < next_addr s'" "is_largest (heap s' a)" for a
    using that inv(5) [of a] assms(3,4,5) by simp
  show "l < next_addr s'" if "largest_planet s' = Some l" for l
    using that inv(6) [of l] assms(3,5) by simp
  show "main_radius s' \<noteq> None" if "setting_velocity s'"
    using that assms(6) by simp
  show "MIN_RADIUS \<le> r" if "main_radius s' = Some r" for r
    using that assms(7) by simp
qed

lemma sim_inv_gesture_update:
  assumes "sim_inv s"
  shows "sim_inv (s \<lparr> velocity_target_pos := pos, setting_velocity := False \<rparr>)"
    and "sim_inv (s \<lparr> running := False \<rparr>)"
    and "sim_inv (s \<lparr> creating_planet := True, creation_start_time := ticks, creation_start_pos := pos \<rparr>)"
    and "MIN_RADIUS \<le> r \<Longrightarrow>
         sim_inv (s \<lparr> main_radius := Some r, creating_planet := False, setting_velocity := True \<rparr>)"
    and "sim_inv (s \<lparr> planets := [] \<rparr>)"
proof -
  note inv = sim_invD(7,8) [OF assms]
  show "sim_inv (s \<lparr> velocity_target_pos := pos, setting_velocity := False \<rparr>)"
    by (rule sim_inv_cong [OF assms]) (use inv in simp_all)
  show "sim_inv (s \<lparr> running := False \<rparr>)"
    by (rule sim_inv_cong [OF assms]) (use inv in simp_all)
  show "sim_inv (s \<lparr> creating_planet := True, creation_start_time := ticks, creation_start_pos := pos \<rparr>)"
    by (rule sim_inv_cong [OF assms]) (use inv in simp_all)
  show "sim_inv (s \<lparr> main_radius := Some r, creating_planet := False, setting_velocity := True \<rparr>)"
    if "MIN_RADIUS \<le> r"
    by (rule sim_inv_cong [OF assms]) (use that in simp_all)
  show "sim_inv (s \<lparr> planets := [] \<rparr>)"
    by (rule sim_inv_cong [OF assms]) (use inv in simp_all)
qed

lemma handle_event_sim_inv:
  assumes "sim_inv s"
  shows "\<exists>s'. handle_event s e = Inr s' \<and> sim_inv s'"
proof (cases e)
  case QUIT
  then show ?thesis using sim_inv_gesture_update(2) [OF assms] by simp
next
  case (MOUSEBUTTONDOWN button ticks pos)
  then show ?thesis using sim_inv_gesture_update(3) [OF assms] assms by simp
next
  case (MOUSEBUTTONUP button ticks pos)
  show ?thesis
  proof (cases "button = 1")
    case False
    then show ?thesis using MOUSEBUTTONUP assms by simp
  next
    case b: True
    show ?thesis
    proof (cases "creating_planet s")
      case True
      have "MIN_RADIUS \<le> max MIN_RADIUS (py_int (of_int (ticks - creation_start_time s) / 100))"
        by simp
      then show ?thesis
        using MOUSEBUTTONUP b True sim_inv_gesture_update(4) [OF assms]
        by (simp add: Let_def)
    next
      case c: False
      show ?thesis
      proof (cases "setting_velocity s")
        case False
        then show ?thesis using MOUSEBUTTONUP b c assms by simp
      next
        case True
        then obtain r where r: "main_radius s = Some r" "MIN_RADIUS \<le> r"
          using sim_invD(7,8) [OF assms] by auto
        let ?s1 = "s \<lparr> velocity_target_pos := pos, setting_velocity := False \<rparr>"
        let ?p = "Planet_init (of_int (fst (creation_start_pos s))) (of_int (snd (creation_start_pos s))) r
                  (of_int (fst pos - fst (creation_start_pos s)) * (5 / 100))
                  (of_int (snd pos - snd (creation_start_pos s)) * (5 / 100))"
        have 1: "sim_inv ?s1" by (rule sim_inv_gesture_update(1) [OF assms])
        have 2: "sim_inv (append_new ?p ?s1)"
          by (rule append_new_sim_inv [OF 1 body_inv_init(1) [OF r(2)]]) simp_all
        have 3: "largest_planet (append_new ?p ?s1) \<noteq> Some (next_addr s)"
          using sim_invD(6) [OF assms, of "next_addr s"] by auto
        have "sim_inv (update_largest (next_addr s) (append_new ?p ?s1))"
          by (rule update_largest_sim_inv [OF 2 _ 3]) simp
        then show ?thesis
          using MOUSEBUTTONUP b create_planet_step [OF c True r(1), of ticks pos] by simp
      qed
    qed
  qed
next
  case (KEYDOWN k pos)
  show ?thesis
  proof (cases k)
    case K_SPACE
    then show ?thesis using KEYDOWN sim_inv_gesture_update(5) [OF assms] by simp
  next
    case K_p
    have "sim_inv (append_new (NonCollidingPlanet_init (of_int (fst pos)) (of_int (snd pos)) MIN_RADIUS 0 0) s)"
      by (rule append_new_sim_inv [OF assms body_inv_init(2)]) simp_all
    then show ?thesis using KEYDOWN K_p by simp
  next
    case K_o
    have "sim_inv (append_new (GhostPlanet_init (of_int (fst pos)) (of_int (snd pos)) MIN_RADIUS 0 0) s)"
      by (rule append_new_sim_inv [OF assms body_inv_init(3)]) simp_all
    then show ?thesis using KEYDOWN K_o by simp
  next
    case K_other
    then show ?thesis using KEYDOWN assms by simp
  qed
next
  case OTHER_EVENT
  then show ?thesis using assms by simp
qed

lemma init_sim_inv: "sim_inv init_sim"
  by (simp add: sim_inv_def init_sim_def)

lemma reachable_sim_inv: "reachable s \<Longrightarrow> sim_inv s"
proof (induction rule: reachable.induct)
  case reachable_init
  show ?case by (rule init_sim_inv)
next
  case (reachable_event s e s')
  then show ?case using handle_event_sim_inv [of s e] by auto
next
  case (reachable_tick s dt s')
  then show ?case using tick_sim_inv [of s dt] by auto
qed

subsection \<open>The main loop\<close>

text \<open>
  The order in which the set \<open>to_remove\<close> is traversed does not matter: what remains
  are the planets outside it, in their order.
\<close>

lemma remove_planets_filter:
  assumes "distinct ps" and "distinct rem" and "set rem \<subseteq> set ps"
  shows "remove_planets ps rem = Inr (filter (\<lambda>a. a \<notin> set rem) ps)"
  using assms
proof (induction rem arbitrary: ps)
  case Nil
  then show ?case by simp
next
  case (Cons a rem)
  have a: "a \<in> set ps" using Cons.prems(3) by simp
  have r1: "remove1 a ps = filter (\<lambda>b. b \<noteq> a) ps"
    using Cons.prems(1) by (simp add: distinct_remove1_removeAll removeAll_filter_not_eq) metis
  have d: "distinct (remove1 a ps)" using Cons.prems(1) by simp
  have s: "set rem \<subseteq> set (remove1 a ps)" using Cons.prems by auto
  have "remove_planets (remove1 a ps) rem = Inr (filter (\<lambda>a. a \<notin> set rem) (remove1 a ps))"
    using Cons.IH [OF d _ s] Cons.prems(2) by simp
  then show ?case using a by (simp add: list_remove_def r1 conj_commute)
qed

text \<open>The loop of \<^verbatim>\<open>main\<close> never raises, and its states are reachable states.\<close>

lemma handle_events_total:
  assumes "reachable s"
  shows "\<exists>s'. handle_events s es = Inr s' \<and> reachable s'"
  using assms
proof (induction es arbitrary: s)
  case Nil
  then show ?case by simp
next
  case (Cons e es)
  obtain s1 where s1: "handle_event s e = Inr s1"
    using handle_event_sim_inv [OF reachable_sim_inv [OF Cons.prems], of e] by blast
  have "reachable s1" using Cons.prems s1 by (rule reachable_event)
  then show ?case using Cons.IH [of s1] s1 by simp
qed

lemma frame_total:
  assumes "reachable s"
  shows "\<exists>s'. frame s es = Inr s' \<and> reachable s'"
proof -
  obtain s1 where s1: "handle_events s es = Inr s1" "reachable s1"
    using handle_events_total [OF assms] by blast
  obtain s' where s': "tick TIME_STEP s1 = Inr s'"
    using tick_sim_inv [OF reachable_sim_inv [OF s1(2)], of TIME_STEP] by blast
  have "reachable s'" using s1(2) s' by (rule reachable_tick)
  then show ?thesis using s1(1) s' by (simp add: frame_def)
qed

lemma frames_total:
  assumes "reachable s"
  shows "\<exists>s'. frames s ess = Inr s' \<and> reachable s'"
  using assms
proof (induction ess arbitrary: s)
  case Nil
  then show ?case by simp
next
  case (Cons es ess)
  show ?case
  proof (cases "running s")
    case False
    then show ?thesis using Cons.prems by simp
  next
    case True
    obtain s1 where s1: "frame s es = Inr s1" "reachable s1"
      using frame_total [OF Cons.prems] by blast
    then show ?thesis using Cons.IH [of s1] True by simp
  qed
qed

subsection \<open>Gravity between the classes of planets\<close>

lemma handle_events_reachable:
  "reachable s \<Longrightarrow> handle_events s es = Inr s' \<Longrightarrow> reachable s'"
proof (induction es arbitrary: s)
  case Nil
  then show ?case by simp
next
  case (Cons e es)
  obtain s1 where s1: "handle_event s e = Inr s1" "sim_inv s1"
    using handle_event_sim_inv [OF reachable_sim_inv [OF Cons.prems(1)], of e] by blast
  have "reachable s1" using Cons.prems(1) s1(1) by (rule reachable_event)
  then show ?case using Cons.IH [of s1] Cons.prems(2) s1(1) by simp
qed

lemma no_pull_from_non_collidable:
  "\<not> is_collidable other \<Longrightarrow> apply_gravity self other = Inr self"
  by (simp add: apply_gravity_def Planet_apply_gravity_def GhostPlanet_apply_gravity_def
      split: planet_class.split)

text \<open>
  Claim C1, as the code has it. A Non-Colliding body exerts no pull on a Standard body:
  in every reachable state, \<open>apply_gravity\<close> of a Standard body with a Non-Colliding
  body as argument returns the Standard body as it is, acceleration included, since
  \<open>apply_gravity\<close> skips every other body whose \<open>is_collidable\<close> is false.
\<close>

theorem non_colliding_exerts_no_pull:
  assumes "reachable s" and "a < next_addr s" and "b < next_addr s"
    and "cls (heap s a) = Planet" and "cls (heap s b) = NonCollidingPlanet"
  shows "apply_gravity (heap s a) (heap s b) = Inr (heap s a)"
proof -
  have "\<not> is_collidable (heap s b)"
    using sim_invD(4) [OF reachable_sim_inv [OF assms(1)], of b] assms(3,5) by simp
  then show ?thesis by (rule no_pull_from_non_collidable)
qed

text \<open>
  The claim as stated fails: with a Standard body at (100, 100) and a Non-Colliding body
  at (110, 100), the acceleration of the Standard body does not change.
\<close>

theorem non_colliding_pull_counterexample:
  "apply_gravity (Planet_init 100 100 5 0 0) (NonCollidingPlanet_init 110 100 5 0 0)
     = Inr (Planet_init 100 100 5 0 0)"
  by (simp add: apply_gravity_def Planet_apply_gravity_def)

lemma standard_then_noncolliding_state:
  "\<exists>s. handle_events init_sim standard_then_noncolliding = Inr s
       \<and> next_addr s = 2 \<and> cls (heap s 0) = Planet \<and> cls (heap s 1) = NonCollidingPlanet"
  by (simp add: standard_then_noncolliding_def init_sim_def Let_def update_largest_def)

theorem non_colliding_exerts_no_pull_witness:
  "\<exists>s. handle_events init_sim standard_then_noncolliding = Inr s
       \<and> cls (heap s 0) = Planet \<and> cls (heap s 1) = NonCollidingPlanet
       \<and> apply_gravity (heap s 0) (heap s 1) = Inr (heap s 0)"
proof -
  obtain s where s: "handle_events init_sim standard_then_noncolliding = Inr s"
      "next_addr s = 2" "cls (heap s 0) = Planet" "cls (heap s 1) = NonCollidingPlanet"
    using standard_then_noncolliding_state by blast
  have r: "reachable s" using handle_events_reachable [OF reachable_init s(1)] .
  have "apply_gravity (heap s 0) (heap s 1) = Inr (heap s 0)"
    using non_colliding_exerts_no_pull [OF r _ _ s(3) s(4)] s(2) by simp
  then show ?thesis using s by blast
qed

subsection \<open>Collisions with a Ghost planet\<close>

lemma py_int_sqrt_50: "py_int (sqrt 50) = 7"
proof -
  have "7 \<le> sqrt 50" by (rule real_le_rsqrt) simp
  moreover have "sqrt 50 < 8" by (rule real_less_lsqrt) simp_all
  ultimately show ?thesis by (simp add: py_int_def floor_eq_iff)
qed

lemma standard_then_ghost_state:
  "\<exists>s. handle_events init_sim standard_then_ghost = Inr s
       \<and> planets s = [0, Suc 0] \<and> next_addr s = 2
       \<and> heap s 0 = (Planet_init 500 500 5 0 0) \<lparr> is_largest := True \<rparr>
       \<and> heap s (Suc 0) = GhostPlanet_init 500 500 5 0 0"
  by (simp add: standard_then_ghost_def init_sim_def Let_def update_largest_def MIN_RADIUS_def)

lemma ghost_self_never_collides:
  "cls (h a) = GhostPlanet \<Longrightarrow> check_collision h a b = Inr (h, False)"
  by (simp add: check_collision_def NonCollidingPlanet_check_collision_def)

text \<open>
  Claim C2 at an input where the code breaks it. A Standard planet of radius 5 is made at
  (500, 500) and a Ghost planet is spawned on top of it. In the collision pass the
  Standard planet, earlier in the list, runs \<open>Planet.check_collision\<close> on the Ghost
  planet: that test does not read \<open>is_collidable\<close>, so the two merge (radius 7,
  mass 10), the Ghost planet enters \<open>to_remove\<close> and the tick removes it from the
  population.
\<close>

theorem ghost_removed_by_standard:
  "\<exists>s. handle_events init_sim standard_then_ghost = Inr s
       \<and> planets s = [0, 1] \<and> cls (heap s 0) = Planet \<and> cls (heap s 1) = GhostPlanet
       \<and> (\<exists>h'. collision_pass (planets s) (heap s, []) = Inr (h', [1])
                \<and> radius (h' 0) = 7 \<and> mass (h' 0) = 10)
       \<and> (\<exists>s'. tick TIME_STEP s = Inr s' \<and> planets s' = [0])"
proof -
  obtain s where s: "handle_events init_sim standard_then_ghost = Inr s"
      "planets s = [0, Suc 0]" "next_addr s = 2"
      "heap s 0 = (Planet_init 500 500 5 0 0) \<lparr> is_largest := True \<rparr>"
      "heap s (Suc 0) = GhostPlanet_init 500 500 5 0 0"
    using standard_then_ghost_state by blast
  have m: "mass (heap s 0) + mass (heap s 1) \<noteq> 0"
    by (simp add: s Planet_init_def GhostPlanet_init_def NonCollidingPlanet_init_def MASS_MULTIPLIER_def)
  have mg: "\<exists>h'. merge (heap s) 0 1 = Inr h' \<and> radius (h' 0) = 7 \<and> mass (h' 0) = 10"
    using merge_ok [of 0 1 "heap s"] m
    by (simp add: s Planet_init_def GhostPlanet_init_def NonCollidingPlanet_init_def
        MASS_MULTIPLIER_def py_int_sqrt_50)
  then obtain h' where h': "merge (heap s) 0 1 = Inr h'" "radius (h' 0) = 7" "mass (h' 0) = 10"
    by blast
  have cc: "check_collision (heap s) 0 1 = Inr (h', True)"
    using h'(1)
    by (simp add: check_collision_def Planet_check_collision_def Let_def s
        Planet_init_def GhostPlanet_init_def NonCollidingPlanet_init_def)
  have cp: "collision_pass (planets s) (heap s, []) = Inr (h', [1])"
    using cc by (simp add: s(2))
  have d: "distinct (planets s)" by (simp add: s(2))
  have b: "\<forall>c \<in> set (planets s). body_inv (heap s c)"
    by (simp add: s body_inv_init MIN_RADIUS_def)
  obtain h1 rem ps h2 where t:
      "collision_pass (planets s) (heap s, []) = Inr (h1, rem)"
      "remove_planets (planets s) rem = Inr ps"
      "tick TIME_STEP s = Inr (s \<lparr> heap := (\<lambda>c. if c \<in> set ps then update_position (h2 c) TIME_STEP else h2 c),
                                   planets := ps \<rparr>)"
    using tick_total [OF d b, of TIME_STEP] by blast
  have "rem = [1]" using t(1) cp by simp
  then have "ps = [0]" using t(2) by (simp add: s(2) list_remove_def)
  then have "\<exists>s'. tick TIME_STEP s = Inr s' \<and> planets s' = [0]" using t(3) by simp
  then show ?thesis using s cp h' by (auto simp add: Planet_init_def GhostPlanet_init_def NonCollidingPlanet_init_def)
qed

subsection \<open>Mass and radius\<close>

lemma gravity_pull_acc_only:
  assumes "gravity_pull p q = Inr p'"
  shows "acc_only p p'"
proof (cases "mass p = 0")
  case True
  then have "gravity_pull p q = Inl ZeroDivisionError"
    using padded_distance_pos [of "x q - x p" "y q - y p"]
    by (simp add: gravity_pull_def py_div_def Let_def)
  then show ?thesis using assms by simp
next
  case False
  then show ?thesis using assms by (auto simp add: gravity_pull_ok Let_def acc_only_def)
qed

lemma apply_gravity_acc_only:
  assumes "apply_gravity p q = Inr p'"
  shows "acc_only p p'"
  using assms gravity_pull_acc_only [of p q p']
  by (cases "cls p")
     (auto simp add: apply_gravity_def Planet_apply_gravity_def GhostPlanet_apply_gravity_def
        split: if_splits)

lemma apply_gravity_to_center_acc_only:
  assumes "apply_gravity_to_center p = Inr p'"
  shows "acc_only p p'"
proof (cases "mass p = 0")
  case True
  show ?thesis
  proof (cases "\<not> is_largest p \<or> center_distance p < CENTER_THRESHOLD")
    case True
    then show ?thesis using apply_gravity_to_center_cases [of p] assms by auto
  next
    case False
    then have "apply_gravity_to_center p = Inl ZeroDivisionError"
      using \<open>mass p = 0\<close> padded_distance_pos [of "of_int (fst CENTER) - x p" "of_int (snd CENTER) - y p"]
      by (simp add: apply_gravity_to_center_def center_distance_def py_div_def Let_def)
    then show ?thesis using assms by simp
  qed
next
  case False
  then show ?thesis using apply_gravity_to_center_total [of p] assms by auto
qed

lemma init_mass_radius:
  "mass (Planet_init px py r pvx pvy) = radius (Planet_init px py r pvx pvy) * MASS_MULTIPLIER"
  "mass (NonCollidingPlanet_init px py r pvx pvy)
     = radius (NonCollidingPlanet_init px py r pvx pvy) * MASS_MULTIPLIER"
  "mass (GhostPlanet_init px py r pvx pvy)
     = radius (GhostPlanet_init px py r pvx pvy) * MASS_MULTIPLIER"
  by (simp_all add: Planet_init_def NonCollidingPlanet_init_def GhostPlanet_init_def)

lemma reachable_body_inv:
  assumes "reachable s" and "a \<in> set (planets s)"
  shows "body_inv (heap s a)"
  using sim_invD(1,3) [OF reachable_sim_inv [OF assms(1)]] assms(2) by blast

text \<open>
  Claim C3, as the code has it. The three constructors, given a radius of at least
  \<open>MIN_RADIUS\<close>, make a body with a positive mass, that radius, and
  \<open>mass = radius * MASS_MULTIPLIER\<close>. Force application and integration change
  neither radius nor mass. A merge of two different bodies that satisfy the invariant
  succeeds, sets the mass to the sum of the two masses and keeps the invariant: the mass
  is positive, the radius is at least \<open>MIN_RADIUS\<close> and
  \<open>radius * MASS_MULTIPLIER \<le> mass\<close> (no longer an equality). Hence in every
  reachable state every body of the population satisfies the invariant.
\<close>

theorem body_invariants:
  "(MIN_RADIUS \<le> r \<longrightarrow>
      body_inv (Planet_init px py r pvx pvy)
      \<and> mass (Planet_init px py r pvx pvy) = radius (Planet_init px py r pvx pvy) * MASS_MULTIPLIER
      \<and> body_inv (NonCollidingPlanet_init px py r pvx pvy)
      \<and> mass (NonCollidingPlanet_init px py r pvx pvy)
          = radius (NonCollidingPlanet_init px py r pvx pvy) * MASS_MULTIPLIER
      \<and> body_inv (GhostPlanet_init px py r pvx pvy)
      \<and> mass (GhostPlanet_init px py r pvx pvy)
          = radius (GhostPlanet_init px py r pvx pvy) * MASS_MULTIPLIER)
   \<and> (\<forall>p'. apply_gravity p q = Inr p' \<longrightarrow> radius p' = radius p \<and> mass p' = mass p)
   \<and> (\<forall>p'. apply_gravity_to_center p = Inr p' \<longrightarrow> radius p' = radius p \<and> mass p' = mass p)
   \<and> radius (update_position p dt) = radius p \<and> mass (update_position p dt) = mass p
   \<and> (a \<noteq> b \<and> body_inv (h a) \<and> body_inv (h b) \<longrightarrow>
        (\<exists>h'. merge h a b = Inr h' \<and> body_inv (h' a)
               \<and> mass (h' a) = mass (h a) + mass (h b)
               \<and> (\<forall>c. c \<noteq> a \<longrightarrow> h' c = h c)))
   \<and> (reachable s \<longrightarrow> (\<forall>c \<in> set (planets s). body_inv (heap s c)))"
proof (intro conjI impI allI ballI)
  assume "a \<noteq> b \<and> body_inv (h a) \<and> body_inv (h b)"
  then show "\<exists>h'. merge h a b = Inr h' \<and> body_inv (h' a)
               \<and> mass (h' a) = mass (h a) + mass (h b)
               \<and> (\<forall>c. c \<noteq> a \<longrightarrow> h' c = h c)"
    using merge_body_inv [of a b h] by blast
next
  fix c assume "reachable s" "c \<in> set (planets s)"
  then show "body_inv (heap s c)" by (rule reachable_body_inv)
next
  fix p' assume "apply_gravity p q = Inr p'"
  then have "acc_only p p'" by (rule apply_gravity_acc_only)
  then show "radius p' = radius p" "mass p' = mass p" by (simp_all add: acc_only_def)
next
  fix p' assume "apply_gravity_to_center p = Inr p'"
  then have "acc_only p p'" by (rule apply_gravity_to_center_acc_only)
  then show "radius p' = radius p" "mass p' = mass p" by (simp_all add: acc_only_def)
qed (simp_all add: body_inv_init init_mass_radius update_position_def Let_def)

text \<open>
  The proportionality of the claim fails after a merge: two bodies of radius 5 and mass 5
  merge to a body of radius 7 and mass 10.
\<close>

theorem mass_radius_counterexample:
  "\<not> isl (merge two_equal_bodies 0 1)
   \<and> radius (projr (merge two_equal_bodies 0 1) 0) = 7
   \<and> mass (projr (merge two_equal_bodies 0 1) 0) = 10
   \<and> mass (projr (merge two_equal_bodies 0 1) 0)
       \<noteq> radius (projr (merge two_equal_bodies 0 1) 0) * MASS_MULTIPLIER"
proof -
  have m: "mass (two_equal_bodies 0) + mass (two_equal_bodies 1) \<noteq> 0"
    by (simp add: two_equal_bodies_def Planet_init_def MASS_MULTIPLIER_def)
  show ?thesis
    using merge_ok [of 0 1 two_equal_bodies] m
    by (simp add: two_equal_bodies_def Planet_init_def MASS_MULTIPLIER_def py_int_sqrt_50)
qed

theorem body_invariants_witness:
  "body_inv (Planet_init 0 0 5 0 0)
   \<and> body_inv (NonCollidingPlanet_init 0 0 5 0 0)
   \<and> body_inv (GhostPlanet_init 0 0 5 0 0)
   \<and> (\<exists>p'. apply_gravity (Planet_init 0 0 5 0 0) (Planet_init 3 4 5 0 0) = Inr p'
            \<and> radius p' = 5 \<and> mass p' = 5)
   \<and> (\<exists>p'. apply_gravity_to_center (Planet_init 0 0 5 0 0) = Inr p'
            \<and> radius p' = 5 \<and> mass p' = 5)
   \<and> (\<exists>h'. merge two_equal_bodies 0 1 = Inr h' \<and> body_inv (h' 0) \<and> mass (h' 0) = 10)
   \<and> (\<exists>s. handle_events init_sim standard_then_ghost = Inr s \<and> reachable s
          \<and> planets s = [0, 1] \<and> body_inv (heap s 0) \<and> body_inv (heap s 1))"
proof -
  obtain s where s: "handle_events init_sim standard_then_ghost = Inr s"
      "planets s = [0, Suc 0]"
    using standard_then_ghost_state by blast
  have r: "reachable s" using handle_events_reachable [OF reachable_init s(1)] .
  note T = body_invariants [of 5 0 0 0 0 "Planet_init 0 0 5 0 0" "Planet_init 3 4 5 0 0" 1
      0 1 two_equal_bodies s]
  have c1: "MIN_RADIUS \<le> 5" by (simp add: MIN_RADIUS_def)
  have i: "body_inv (Planet_init 0 0 5 0 0) \<and> body_inv (NonCollidingPlanet_init 0 0 5 0 0)
     \<and> body_inv (GhostPlanet_init 0 0 5 0 0)"
    using T c1 by simp
  have m0: "mass (Planet_init 0 0 5 0 0) \<noteq> 0" "mass (Planet_init 0 0 5 0 0) = 5"
      "radius (Planet_init 0 0 5 0 0) = 5"
    by (simp_all add: Planet_init_def MASS_MULTIPLIER_def)
  obtain p1 where p1: "apply_gravity (Planet_init 0 0 5 0 0) (Planet_init 3 4 5 0 0) = Inr p1"
    using apply_gravity_total [OF m0(1)] by blast
  have g: "radius p1 = 5 \<and> mass p1 = 5" using T p1 m0 by simp
  obtain p2 where p2: "apply_gravity_to_center (Planet_init 0 0 5 0 0) = Inr p2"
    using apply_gravity_to_center_total [OF m0(1)] by blast
  have gc: "radius p2 = 5 \<and> mass p2 = 5" using T p2 m0 by simp
  have b: "(0::nat) \<noteq> 1 \<and> body_inv (two_equal_bodies 0) \<and> body_inv (two_equal_bodies 1)"
    by (simp add: two_equal_bodies_def body_inv_init MIN_RADIUS_def)
  have mm: "mass (two_equal_bodies 0) + mass (two_equal_bodies 1) = 10"
    by (simp add: two_equal_bodies_def Planet_init_def MASS_MULTIPLIER_def)
  have mg: "\<exists>h'. merge two_equal_bodies 0 1 = Inr h' \<and> body_inv (h' 0) \<and> mass (h' 0) = 10"
    using T b mm by auto
  have st: "body_inv (heap s 0) \<and> body_inv (heap s 1)"
    using T r s(2) by simp
  show ?thesis using i p1 g p2 gc mg s r st by auto
qed

subsection \<open>The flag of the largest planet\<close>

lemma update_largest_effect:
  assumes "largest_planet s2 \<noteq> Some n"
  shows "(largest_planet (update_largest n s2) = largest_planet s2
          \<and> heap (update_largest n s2) = heap s2)
       \<or> (largest_planet (update_largest n s2) = Some n
          \<and> radius (heap (update_largest n s2) n) = radius (heap s2 n)
          \<and> cls (heap (update_largest n s2) n) = cls (heap s2 n)
          \<and> is_largest (heap (update_largest n s2) n)
          \<and> (\<forall>l. largest_planet s2 = Some l \<longrightarrow> radius (heap s2 l) < radius (heap s2 n)))"
  using assms by (auto simp add: update_largest_cases split: option.split)

lemma update_largest_flag:
  assumes "largest_planet s2 \<noteq> Some n"
  shows "is_largest (heap (update_largest n s2) n)
         \<longleftrightarrow> is_largest (heap s2 n)
             \<or> (case largest_planet s2 of None \<Rightarrow> True
                 | Some l \<Rightarrow> radius (heap s2 l) < radius (heap s2 n))"
  using assms by (auto simp add: update_largest_cases split: option.split)

lemma keeps_flags_refl:
  assumes "largest_planet s' = largest_planet s" and "heap s' = heap s"
  shows "(largest_planet s' = largest_planet s
          \<and> (\<forall>a < next_addr s. is_largest (heap s' a) = is_largest (heap s a)))
       \<or> flag_step s e s'"
  using assms by simp

lemma keeps_flags_append:
  assumes "s' = append_new p s"
  shows "(largest_planet s' = largest_planet s
          \<and> (\<forall>a < next_addr s. is_largest (heap s' a) = is_largest (heap s a)))
       \<or> flag_step s e s'"
  using assms by simp

lemma handle_event_largest:
  assumes "sim_inv s" and "handle_event s e = Inr s'"
  shows "(largest_planet s' = largest_planet s
          \<and> (\<forall>a < next_addr s. is_largest (heap s' a) = is_largest (heap s a)))
       \<or> flag_step s e s'"
proof (cases e)
  case QUIT
  then have "s' = s \<lparr> running := False \<rparr>" using assms(2) by simp
  then show ?thesis by (intro keeps_flags_refl) simp_all
next
  case (MOUSEBUTTONDOWN button ticks pos)
  then have "s' = s \<or> s' = s \<lparr> creating_planet := True, creation_start_time := ticks,
                       creation_start_pos := pos \<rparr>"
    using assms(2) by (simp split: if_splits)
  then show ?thesis by (intro keeps_flags_refl) auto
next
  case (MOUSEBUTTONUP button ticks pos)
  show ?thesis
  proof (cases "button = 1")
    case False
    then have "s' = s" using MOUSEBUTTONUP assms(2) by simp
    then show ?thesis by (intro keeps_flags_refl) simp_all
  next
    case b: True
    show ?thesis
    proof (cases "creating_planet s")
      case True
      then have "s' = s \<lparr> main_radius :=
          Some (max MIN_RADIUS (py_int (of_int (ticks - creation_start_time s) / 100))),
          creating_planet := False, setting_velocity := True \<rparr>"
        using MOUSEBUTTONUP b assms(2) by (simp add: Let_def)
      then show ?thesis by (intro keeps_flags_refl) simp_all
    next
      case c: False
      show ?thesis
      proof (cases "setting_velocity s")
        case False
        then have "s' = s" using MOUSEBUTTONUP b c assms(2) by simp
        then show ?thesis by (intro keeps_flags_refl) simp_all
      next
        case True
        then obtain r where r: "main_radius s = Some r"
          using sim_invD(7) [OF assms(1)] by auto
        define n where "n = next_addr s"
        define s1 where "s1 = s \<lparr> velocity_target_pos := pos, setting_velocity := False \<rparr>"
        define p where "p = Planet_init (of_int (fst (creation_start_pos s)))
                  (of_int (snd (creation_start_pos s))) r
                  (of_int (fst pos - fst (creation_start_pos s)) * (5 / 100))
                  (of_int (snd pos - snd (creation_start_pos s)) * (5 / 100))"
        define s2 where "s2 = append_new p s1"
        have s': "s' = update_largest n s2"
          using assms(2) MOUSEBUTTONUP b create_planet_step [OF c True r, of ticks pos]
          by (simp add: n_def s1_def p_def s2_def)
        have h2: "heap s2 = (heap s) (n := p)" "largest_planet s2 = largest_planet s"
            "planets s2 = planets s @ [n]"
          by (simp_all add: s2_def s1_def n_def)
        have lt: "l \<noteq> n" if "largest_planet s = Some l" for l
          using sim_invD(6) [OF assms(1) that] by (simp add: n_def)
        have ne: "largest_planet s2 \<noteq> Some n" using lt h2(2) by auto
        have pc: "cls p = Planet" by (simp add: p_def)
        from update_largest_effect [OF ne] show ?thesis
        proof
          assume a: "largest_planet (update_largest n s2) = largest_planet s2
              \<and> heap (update_largest n s2) = heap s2"
          then have "largest_planet s' = largest_planet s"
            and "\<forall>a < next_addr s. is_largest (heap s' a) = is_largest (heap s a)"
            unfolding s' by (simp_all add: h2 n_def)
          then show ?thesis by blast
        next
          assume a: "largest_planet (update_largest n s2) = Some n
              \<and> radius (heap (update_largest n s2) n) = radius (heap s2 n)
              \<and> cls (heap (update_largest n s2) n) = cls (heap s2 n)
              \<and> is_largest (heap (update_largest n s2) n)
              \<and> (\<forall>l. largest_planet s2 = Some l \<longrightarrow> radius (heap s2 l) < radius (heap s2 n))"
          have 1: "\<exists>ticks pos. e = MOUSEBUTTONUP 1 ticks pos" using MOUSEBUTTONUP b by simp
          have 2: "planets s' = planets s @ [next_addr s]" unfolding s' by (simp add: h2 n_def)
          have 3: "cls (heap s' (next_addr s)) = Planet"
            unfolding s' using a pc by (simp add: h2 n_def [symmetric])
          have 4: "largest_planet s' = Some (next_addr s)" unfolding s' using a by (simp add: n_def)
          have 5: "radius (heap s l) < radius (heap s' (next_addr s))"
            if "largest_planet s = Some l" for l
            unfolding s' using a that lt [OF that] by (simp add: h2 n_def [symmetric])
          have "flag_step s e s'" unfolding flag_step_def using 1 2 3 4 5 by blast
          then show ?thesis by blast
        qed
      qed
    qed
  qed
next
  case (KEYDOWN k pos)
  show ?thesis
  proof (cases k)
    case K_SPACE
    then have "s' = s \<lparr> planets := [] \<rparr>" using KEYDOWN assms(2) by simp
    then show ?thesis by (intro keeps_flags_refl) simp_all
  next
    case K_p
    then have "s' = append_new (NonCollidingPlanet_init (of_int (fst pos)) (of_int (snd pos)) MIN_RADIUS 0 0) s"
      using KEYDOWN assms(2) by simp
    then show ?thesis by (rule keeps_flags_append)
  next
    case K_o
    then have "s' = append_new (GhostPlanet_init (of_int (fst pos)) (of_int (snd pos)) MIN_RADIUS 0 0) s"
      using KEYDOWN assms(2) by simp
    then show ?thesis by (rule keeps_flags_append)
  next
    case K_other
    then have "s' = s" using KEYDOWN assms(2) by simp
    then show ?thesis by (intro keeps_flags_refl) simp_all
  qed
next
  case OTHER_EVENT
  then have "s' = s" using assms(2) by simp
  then show ?thesis by (intro keeps_flags_refl) simp_all
qed

lemma distinct_all_eq_length:
  assumes "distinct xs" and "\<forall>a \<in> set xs. a = l"
  shows "length xs \<le> 1"
proof (cases xs)
  case Nil
  then show ?thesis by simp
next
  case (Cons b ys)
  have "ys = []"
  proof (cases ys)
    case Nil
    then show ?thesis .
  next
    case (Cons c zs)
    then have "c = l" "b = l" "b \<noteq> c" using assms \<open>xs = b # ys\<close> by auto
    then show ?thesis by simp
  qed
  then show ?thesis using Cons by simp
qed

lemma at_most_one_flag:
  assumes "sim_inv s"
  shows "length (filter (\<lambda>a. is_largest (heap s a)) (planets s)) \<le> 1"
proof -
  define F where "F = filter (\<lambda>a. is_largest (heap s a)) (planets s)"
  note inv = sim_invD [OF assms]
  have d: "distinct F" using inv(2) by (simp add: F_def)
  have sub: "largest_planet s = Some a" if "a \<in> set F" for a
    using that inv(1) [of a] inv(5) [of a] by (simp add: F_def)
  have "length F \<le> 1"
  proof (cases "largest_planet s")
    case None
    then have "set F = {}" using sub by fastforce
    then show ?thesis by simp
  next
    case (Some l)
    then have "\<forall>a \<in> set F. a = l" using sub by fastforce
    then show ?thesis using d by (rule distinct_all_eq_length [rotated])
  qed
  then show ?thesis by (simp add: F_def)
qed

text \<open>
  Claim C5. In every reachable state at most one body of the population has
  \<open>is_largest\<close> set. An event changes \<^verbatim>\<open>largest_planet\<close> only when it creates a
  planet whose radius is larger than the radius of the current holder (or when there is
  no holder yet): the new planet then is the holder. An event that leaves
  \<^verbatim>\<open>largest_planet\<close> as it is leaves the flag of every existing body as it is, so
  spawning a variant and clearing never move the flag; a tick, with its merges, changes
  neither \<^verbatim>\<open>largest_planet\<close> nor any flag.
\<close>

theorem largest_flag_unique:
  assumes "reachable s"
  shows "length (filter (\<lambda>a. is_largest (heap s a)) (planets s)) \<le> 1
    \<and> (\<forall>e s'. handle_event s e = Inr s' \<and> largest_planet s' \<noteq> largest_planet s \<longrightarrow>
          flag_step s e s')
    \<and> (\<forall>e s'. handle_event s e = Inr s' \<and> largest_planet s' = largest_planet s \<longrightarrow>
          (\<forall>a < next_addr s. is_largest (heap s' a) = is_largest (heap s a)))
    \<and> (\<forall>dt s'. tick dt s = Inr s' \<longrightarrow>
          largest_planet s' = largest_planet s
          \<and> (\<forall>a. is_largest (heap s' a) = is_largest (heap s a)))"
proof (intro conjI)
  note inv = reachable_sim_inv [OF assms]
  show "length (filter (\<lambda>a. is_largest (heap s a)) (planets s)) \<le> 1"
    by (rule at_most_one_flag [OF inv])
  show "\<forall>e s'. handle_event s e = Inr s' \<and> largest_planet s' \<noteq> largest_planet s \<longrightarrow>
          flag_step s e s'"
  proof (intro allI impI)
    fix e s'
    assume "handle_event s e = Inr s' \<and> largest_planet s' \<noteq> largest_planet s"
    then show "flag_step s e s'" using handle_event_largest [OF inv, of e s'] by blast
  qed
  show "\<forall>e s'. handle_event s e = Inr s' \<and> largest_planet s' = largest_planet s \<longrightarrow>
          (\<forall>a < next_addr s. is_largest (heap s' a) = is_largest (heap s a))"
  proof (intro allI impI)
    fix e s' a
    assume h: "handle_event s e = Inr s' \<and> largest_planet s' = largest_planet s"
      and a: "a < next_addr s"
    have "\<not> flag_step s e s'"
    proof
      assume "flag_step s e s'"
      then have "largest_planet s = Some (next_addr s)" using h by (simp add: flag_step_def)
      then show False using sim_invD(6) [OF inv, of "next_addr s"] by simp
    qed
    then show "is_largest (heap s' a) = is_largest (heap s a)"
      using handle_event_largest [OF inv, of e s'] h a by blast
  qed
  show "\<forall>dt s'. tick dt s = Inr s' \<longrightarrow>
          largest_planet s' = largest_planet s
          \<and> (\<forall>a. is_largest (heap s' a) = is_largest (heap s a))"
  proof (intro allI impI)
    fix dt s'
    assume "tick dt s = Inr s'"
    then show "largest_planet s' = largest_planet s
          \<and> (\<forall>a. is_largest (heap s' a) = is_largest (heap s a))"
      using tick_sim_inv [OF inv, of dt] by auto
  qed
qed

lemma sizing_done_state:
  "\<exists>s. handle_events init_sim sizing_done = Inr s
       \<and> planets s = [] \<and> next_addr s = 0 \<and> largest_planet s = None
       \<and> \<not> creating_planet s \<and> setting_velocity s \<and> main_radius s = Some 10
       \<and> creation_start_pos s = (100, 100)"
  by (simp add: sizing_done_def init_sim_def Let_def MIN_RADIUS_def)

theorem largest_flag_unique_witness:
  "\<exists>s s'. handle_events init_sim sizing_done = Inr s
       \<and> handle_event s (MOUSEBUTTONUP 1 1500 (120, 100)) = Inr s'
       \<and> largest_planet s = None \<and> largest_planet s' = Some 0
       \<and> flag_step s (MOUSEBUTTONUP 1 1500 (120, 100)) s'
       \<and> length (filter (\<lambda>a. is_largest (heap s' a)) (planets s')) \<le> 1
       \<and> handle_event s' (KEYDOWN K_p (110, 100)) = Inr (append_new (NonCollidingPlanet_init 110 100 5 0 0) s')
       \<and> is_largest (heap (append_new (NonCollidingPlanet_init 110 100 5 0 0) s') 0)
       \<and> tick 1 s = Inr s"
proof -
  obtain s where s: "handle_events init_sim sizing_done = Inr s"
      "planets s = []" "next_addr s = 0" "largest_planet s = None"
      "\<not> creating_planet s" "setting_velocity s" "main_radius s = Some 10"
    using sizing_done_state by blast
  have r: "reachable s" using handle_events_reachable [OF reachable_init s(1)] .
  define p where "p = Planet_init (of_int (fst (creation_start_pos s)))
      (of_int (snd (creation_start_pos s))) 10
      (of_int (fst (120 :: int, 100 :: int) - fst (creation_start_pos s)) * (5 / 100))
      (of_int (snd (120 :: int, 100 :: int) - snd (creation_start_pos s)) * (5 / 100))"
  define s2 where "s2 = append_new p (s \<lparr> velocity_target_pos := (120, 100), setting_velocity := False \<rparr>)"
  define s' where "s' = update_largest 0 s2"
  have s2: "largest_planet s2 = None" "next_addr s2 = Suc 0" "planets s2 = [0]"
    by (simp_all add: s2_def s(2,3,4))
  have e1: "handle_event s (MOUSEBUTTONUP 1 1500 (120, 100)) = Inr s'"
    using create_planet_step [OF s(5) s(6) s(7), of 1500 "(120, 100)"]
    by (simp add: s'_def s2_def p_def s(3))
  have r': "reachable s'" using r e1 by (rule reachable_event)
  have l': "largest_planet s' = Some 0"
    by (simp add: s'_def update_largest_cases s2(1))
  have f0: "is_largest (heap s' 0)"
    by (simp add: s'_def update_largest_cases s2(1))
  have n': "next_addr s' = Suc 0"
    by (simp add: s'_def s2(2))
  have ne: "largest_planet s' \<noteq> largest_planet s" by (simp add: l' s(4))
  have fs: "flag_step s (MOUSEBUTTONUP 1 1500 (120, 100)) s'"
    using largest_flag_unique [OF r, THEN conjunct2, THEN conjunct1] e1 ne by blast
  have le: "length (filter (\<lambda>a. is_largest (heap s' a)) (planets s')) \<le> 1"
    using largest_flag_unique [OF r', THEN conjunct1] .
  define s3 where "s3 = append_new (NonCollidingPlanet_init 110 100 5 0 0) s'"
  have e2: "handle_event s' (KEYDOWN K_p (110, 100)) = Inr s3"
    by (simp add: s3_def MIN_RADIUS_def)
  have l3: "largest_planet s3 = largest_planet s'" by (simp add: s3_def)
  have "\<forall>a < next_addr s'. is_largest (heap s3 a) = is_largest (heap s' a)"
    using largest_flag_unique [OF r', THEN conjunct2, THEN conjunct2, THEN conjunct1] e2 l3
    by blast
  then have k: "is_largest (heap s3 0)" using f0 n' by simp
  have t: "tick 1 s = Inr s" by (simp add: tick_def s(2))
  have tl: "largest_planet s = largest_planet s"
    using largest_flag_unique [OF r, THEN conjunct2, THEN conjunct2, THEN conjunct2] t by blast
  have "handle_events init_sim sizing_done = Inr s
       \<and> handle_event s (MOUSEBUTTONUP 1 1500 (120, 100)) = Inr s'
       \<and> largest_planet s = None \<and> largest_planet s' = Some 0
       \<and> flag_step s (MOUSEBUTTONUP 1 1500 (120, 100)) s'
       \<and> length (filter (\<lambda>a. is_largest (heap s' a)) (planets s')) \<le> 1
       \<and> handle_event s' (KEYDOWN K_p (110, 100)) = Inr (append_new (NonCollidingPlanet_init 110 100 5 0 0) s')
       \<and> is_largest (heap (append_new (NonCollidingPlanet_init 110 100 5 0 0) s') 0)
       \<and> tick 1 s = Inr s"
    using s(1) e1 s(4) l' fs le e2 k t unfolding s3_def by (intro conjI)
  then show ?thesis by (intro exI)
qed

subsection \<open>A tick with a zero time step\<close>






lemma absorb_all_simps [simp]:
  "absorb_all p [] = p"
  "absorb_all p (q # qs) = absorb_all (collide_step p q) qs"
  by (simp_all add: absorb_all_def)



















subsection \<open>Clearing the population\<close>

lemma create_planet_result:
  assumes "\<not> creating_planet s" and "setting_velocity s" and "main_radius s = Some r"
    and "largest_planet s = Some l" and "l \<noteq> next_addr s"
  shows "\<exists>s'. handle_event s (MOUSEBUTTONUP 1 ticks p) = Inr s'
           \<and> planets s' = planets s @ [next_addr s]
           \<and> cls (heap s' (next_addr s)) = Planet
           \<and> radius (heap s' (next_addr s)) = r
           \<and> (is_largest (heap s' (next_addr s)) \<longleftrightarrow> radius (heap s l) < r)"
proof -
  define n where "n = next_addr s"
  define q where "q = Planet_init (of_int (fst (creation_start_pos s)))
      (of_int (snd (creation_start_pos s))) r
      (of_int (fst p - fst (creation_start_pos s)) * (5 / 100))
      (of_int (snd p - snd (creation_start_pos s)) * (5 / 100))"
  define s2 where "s2 = append_new q (s \<lparr> velocity_target_pos := p, setting_velocity := False \<rparr>)"
  define s' where "s' = update_largest n s2"
  have e: "handle_event s (MOUSEBUTTONUP 1 ticks p) = Inr s'"
    using create_planet_step [OF assms(1,2,3), of ticks p]
    by (simp add: s'_def s2_def q_def n_def)
  have h2: "heap s2 n = q" "heap s2 l = heap s l" "largest_planet s2 = Some l"
      "planets s2 = planets s @ [n]"
    using assms(4,5) by (simp_all add: s2_def n_def)
  have q: "cls q = Planet" "radius q = r" "\<not> is_largest q" by (simp_all add: q_def)
  have ln: "l \<noteq> n" using assms(5) by (simp add: n_def)
  have 1: "planets s' = planets s @ [n]" by (simp add: s'_def h2)
  have 2: "cls (heap s' n) = Planet"
    using q ln by (simp add: s'_def update_largest_cases h2)
  have 3: "radius (heap s' n) = r"
    using q ln by (simp add: s'_def update_largest_cases h2)
  have 4: "is_largest (heap s' n) \<longleftrightarrow> radius (heap s l) < r"
    using q ln by (simp add: s'_def update_largest_cases h2)
  have "handle_event s (MOUSEBUTTONUP 1 ticks p) = Inr s'
           \<and> planets s' = planets s @ [next_addr s]
           \<and> cls (heap s' (next_addr s)) = Planet
           \<and> radius (heap s' (next_addr s)) = r
           \<and> (is_largest (heap s' (next_addr s)) \<longleftrightarrow> radius (heap s l) < r)"
    using e 1 2 3 4 unfolding n_def by blast
  then show ?thesis by (intro exI)
qed

lemma clear_then_create:
  assumes "largest_planet s = Some l" and "l \<noteq> next_addr s"
    and "\<not> creating_planet s" and "\<not> setting_velocity s"
  shows "\<exists>s'. handle_events s [KEYDOWN K_SPACE pos, MOUSEBUTTONDOWN 1 t0 p0,
                               MOUSEBUTTONUP 1 t1 p1, MOUSEBUTTONUP 1 t2 p2] = Inr s'
           \<and> planets s' = [next_addr s]
           \<and> cls (heap s' (next_addr s)) = Planet
           \<and> radius (heap s' (next_addr s)) = max MIN_RADIUS (py_int (of_int (t1 - t0) / 100))
           \<and> (is_largest (heap s' (next_addr s))
                \<longleftrightarrow> radius (heap s l) < max MIN_RADIUS (py_int (of_int (t1 - t0) / 100)))"
proof -
  define r where "r = max MIN_RADIUS (py_int (of_int (t1 - t0) / 100))"
  define s1 where "s1 = s \<lparr> planets := [] \<rparr>"
  define s2 where "s2 = s1 \<lparr> creating_planet := True, creation_start_time := t0,
                              creation_start_pos := p0 \<rparr>"
  define s3 where "s3 = s2 \<lparr> main_radius := Some r, creating_planet := False,
                              setting_velocity := True \<rparr>"
  have e1: "handle_event s (KEYDOWN K_SPACE pos) = Inr s1" by (simp add: s1_def)
  have e2: "handle_event s1 (MOUSEBUTTONDOWN 1 t0 p0) = Inr s2"
    using assms(3,4) by (simp add: s2_def s1_def)
  have e3: "handle_event s2 (MOUSEBUTTONUP 1 t1 p1) = Inr s3"
    by (simp add: s3_def r_def Let_def) (simp add: s2_def s1_def)
  have f3: "\<not> creating_planet s3" "setting_velocity s3" "main_radius s3 = Some r"
      "largest_planet s3 = Some l" "next_addr s3 = next_addr s" "planets s3 = []"
      "heap s3 = heap s"
    using assms(1) by (simp_all add: s3_def s2_def s1_def)
  have l3: "l \<noteq> next_addr s3" using assms(2) f3(5) by simp
  obtain s' where s': "handle_event s3 (MOUSEBUTTONUP 1 t2 p2) = Inr s'"
      "planets s' = planets s3 @ [next_addr s3]"
      "cls (heap s' (next_addr s3)) = Planet"
      "radius (heap s' (next_addr s3)) = r"
      "is_largest (heap s' (next_addr s3)) \<longleftrightarrow> radius (heap s3 l) < r"
    using create_planet_result [OF f3(1,2,3,4) l3, of t2 p2] by blast
  have "handle_events s [KEYDOWN K_SPACE pos, MOUSEBUTTONDOWN 1 t0 p0,
                               MOUSEBUTTONUP 1 t1 p1, MOUSEBUTTONUP 1 t2 p2] = Inr s'"
    using e1 e2 e3 s'(1) by simp
  moreover have "planets s' = [next_addr s]" using s'(2) f3(5,6) by simp
  moreover have "cls (heap s' (next_addr s)) = Planet" using s'(3) f3(5) by simp
  moreover have "radius (heap s' (next_addr s)) = r" using s'(4) f3(5) by simp
  moreover have "is_largest (heap s' (next_addr s)) \<longleftrightarrow> radius (heap s l) < r"
    using s'(5) f3(5,7) by simp
  ultimately have "handle_events s [KEYDOWN K_SPACE pos, MOUSEBUTTONDOWN 1 t0 p0,
                               MOUSEBUTTONUP 1 t1 p1, MOUSEBUTTONUP 1 t2 p2] = Inr s'
           \<and> planets s' = [next_addr s]
           \<and> cls (heap s' (next_addr s)) = Planet
           \<and> radius (heap s' (next_addr s)) = max MIN_RADIUS (py_int (of_int (t1 - t0) / 100))
           \<and> (is_largest (heap s' (next_addr s))
                \<longleftrightarrow> radius (heap s l) < max MIN_RADIUS (py_int (of_int (t1 - t0) / 100)))"
    unfolding r_def by blast
  then show ?thesis by (intro exI)
qed

text \<open>
  Claim C10. The key \<^verbatim>\<open>SPACE\<close> empties the list of planets and changes nothing else:
  \<^verbatim>\<open>largest_planet\<close> still refers to the planet that held the flag. In every reachable
  state where \<^verbatim>\<open>largest_planet\<close> refers to a planet \<open>l\<close>, in the population or
  not, the release that creates a Standard planet of radius \<open>r\<close> gives it the flag
  exactly when \<open>r\<close> is larger than the radius of \<open>l\<close>. In particular a clear
  followed by a whole gesture leaves a population of one planet, which is flagged exactly
  when its radius is larger than that of the planet that was largest before the clear;
  when it is not, the population is not empty and \<open>apply_gravity_to_center\<close> changes
  no body of it.
\<close>

theorem clear_keeps_largest_planet:
  assumes "reachable s"
  shows "handle_event s (KEYDOWN K_SPACE pos) = Inr (s \<lparr> planets := [] \<rparr>)
    \<and> (largest_planet s = Some l \<and> \<not> creating_planet s \<and> setting_velocity s
        \<and> main_radius s = Some r \<longrightarrow>
          (\<exists>s'. handle_event s (MOUSEBUTTONUP 1 ticks p) = Inr s'
             \<and> planets s' = planets s @ [next_addr s]
             \<and> cls (heap s' (next_addr s)) = Planet
             \<and> radius (heap s' (next_addr s)) = r
             \<and> (is_largest (heap s' (next_addr s)) \<longleftrightarrow> radius (heap s l) < r)))
    \<and> (largest_planet s = Some l \<and> \<not> creating_planet s \<and> \<not> setting_velocity s \<longrightarrow>
          (\<exists>s'. handle_events s [KEYDOWN K_SPACE pos, MOUSEBUTTONDOWN 1 t0 p0,
                                 MOUSEBUTTONUP 1 t1 p1, MOUSEBUTTONUP 1 t2 p2] = Inr s'
             \<and> planets s' = [next_addr s]
             \<and> cls (heap s' (next_addr s)) = Planet
             \<and> radius (heap s' (next_addr s)) = max MIN_RADIUS (py_int (of_int (t1 - t0) / 100))
             \<and> (is_largest (heap s' (next_addr s))
                  \<longleftrightarrow> radius (heap s l) < max MIN_RADIUS (py_int (of_int (t1 - t0) / 100)))
             \<and> (\<not> radius (heap s l) < max MIN_RADIUS (py_int (of_int (t1 - t0) / 100)) \<longrightarrow>
                  planets s' \<noteq> []
                  \<and> (\<forall>a \<in> set (planets s'). \<not> is_largest (heap s' a)
                        \<and> apply_gravity_to_center (heap s' a) = Inr (heap s' a)))))"
proof (intro conjI impI)
  show "handle_event s (KEYDOWN K_SPACE pos) = Inr (s \<lparr> planets := [] \<rparr>)" by simp
next
  assume a: "largest_planet s = Some l \<and> \<not> creating_planet s \<and> setting_velocity s
        \<and> main_radius s = Some r"
  then have "l \<noteq> next_addr s"
    using sim_invD(6) [OF reachable_sim_inv [OF assms], of l] by auto
  then show "\<exists>s'. handle_event s (MOUSEBUTTONUP 1 ticks p) = Inr s'
             \<and> planets s' = planets s @ [next_addr s]
             \<and> cls (heap s' (next_addr s)) = Planet
             \<and> radius (heap s' (next_addr s)) = r
             \<and> (is_largest (heap s' (next_addr s)) \<longleftrightarrow> radius (heap s l) < r)"
    using a by (intro create_planet_result) simp_all
next
  assume a: "largest_planet s = Some l \<and> \<not> creating_planet s \<and> \<not> setting_velocity s"
  then have ln: "l \<noteq> next_addr s"
    using sim_invD(6) [OF reachable_sim_inv [OF assms], of l] by auto
  define r where "r = max MIN_RADIUS (py_int (of_int (t1 - t0) / 100))"
  obtain s' where s': "handle_events s [KEYDOWN K_SPACE pos, MOUSEBUTTONDOWN 1 t0 p0,
                               MOUSEBUTTONUP 1 t1 p1, MOUSEBUTTONUP 1 t2 p2] = Inr s'"
      "planets s' = [next_addr s]"
      "cls (heap s' (next_addr s)) = Planet"
      "radius (heap s' (next_addr s)) = r"
      "is_largest (heap s' (next_addr s)) \<longleftrightarrow> radius (heap s l) < r"
    using clear_then_create [of s l pos t0 p0 t1 p1 t2 p2] a ln unfolding r_def by blast
  have nf: "planets s' \<noteq> []
        \<and> (\<forall>a \<in> set (planets s'). \<not> is_largest (heap s' a)
              \<and> apply_gravity_to_center (heap s' a) = Inr (heap s' a))"
    if "\<not> radius (heap s l) < r"
    using that s'(2,5) apply_gravity_to_center_cases [of "heap s' (next_addr s)"] by simp
  have "handle_events s [KEYDOWN K_SPACE pos, MOUSEBUTTONDOWN 1 t0 p0,
                                 MOUSEBUTTONUP 1 t1 p1, MOUSEBUTTONUP 1 t2 p2] = Inr s'
             \<and> planets s' = [next_addr s]
             \<and> cls (heap s' (next_addr s)) = Planet
             \<and> radius (heap s' (next_addr s)) = r
             \<and> (is_largest (heap s' (next_addr s)) \<longleftrightarrow> radius (heap s l) < r)
             \<and> (\<not> radius (heap s l) < r \<longrightarrow>
                  planets s' \<noteq> []
                  \<and> (\<forall>a \<in> set (planets s'). \<not> is_largest (heap s' a)
                        \<and> apply_gravity_to_center (heap s' a) = Inr (heap s' a)))"
    using s' nf by blast
  then show "\<exists>s'. handle_events s [KEYDOWN K_SPACE pos, MOUSEBUTTONDOWN 1 t0 p0,
                                 MOUSEBUTTONUP 1 t1 p1, MOUSEBUTTONUP 1 t2 p2] = Inr s'
             \<and> planets s' = [next_addr s]
             \<and> cls (heap s' (next_addr s)) = Planet
             \<and> radius (heap s' (next_addr s)) = max MIN_RADIUS (py_int (of_int (t1 - t0) / 100))
             \<and> (is_largest (heap s' (next_addr s))
                  \<longleftrightarrow> radius (heap s l) < max MIN_RADIUS (py_int (of_int (t1 - t0) / 100)))
             \<and> (\<not> radius (heap s l) < max MIN_RADIUS (py_int (of_int (t1 - t0) / 100)) \<longrightarrow>
                  planets s' \<noteq> []
                  \<and> (\<forall>a \<in> set (planets s'). \<not> is_largest (heap s' a)
                        \<and> apply_gravity_to_center (heap s' a) = Inr (heap s' a)))"
    unfolding r_def by (intro exI)
qed

lemma one_planet_state:
  "\<exists>s. handle_events init_sim one_planet = Inr s
       \<and> planets s = [0] \<and> next_addr s = Suc 0 \<and> largest_planet s = Some 0
       \<and> radius (heap s 0) = 10
       \<and> \<not> creating_planet s \<and> \<not> setting_velocity s"
  by (simp add: one_planet_def init_sim_def Let_def update_largest_def MIN_RADIUS_def)

lemma one_planet_then_sizing_state:
  "\<exists>s. handle_events init_sim one_planet_then_sizing = Inr s
       \<and> planets s = [0] \<and> next_addr s = Suc 0 \<and> largest_planet s = Some 0
       \<and> radius (heap s 0) = 10
       \<and> \<not> creating_planet s \<and> setting_velocity s \<and> main_radius s = Some 5"
  by (simp add: one_planet_then_sizing_def one_planet_def init_sim_def Let_def update_largest_def
      MIN_RADIUS_def)

theorem clear_keeps_largest_planet_witness:
  "(\<exists>s s'. handle_events init_sim one_planet = Inr s
       \<and> planets s = [0] \<and> largest_planet s = Some 0 \<and> radius (heap s 0) = 10
       \<and> handle_events s [KEYDOWN K_SPACE (0, 0), MOUSEBUTTONDOWN 1 2000 (300, 300),
                           MOUSEBUTTONUP 1 2100 (300, 300), MOUSEBUTTONUP 1 2500 (300, 300)] = Inr s'
       \<and> planets s' = [1] \<and> cls (heap s' 1) = Planet \<and> radius (heap s' 1) = 5
       \<and> \<not> is_largest (heap s' 1)
       \<and> apply_gravity_to_center (heap s' 1) = Inr (heap s' 1))
   \<and> (\<exists>s s'. handle_events init_sim one_planet_then_sizing = Inr s
       \<and> handle_event s (MOUSEBUTTONUP 1 2500 (300, 300)) = Inr s'
       \<and> planets s' = [0, 1] \<and> radius (heap s' 1) = 5 \<and> \<not> is_largest (heap s' 1))"
proof
  obtain s where s: "handle_events init_sim one_planet = Inr s"
      "planets s = [0]" "next_addr s = Suc 0" "largest_planet s = Some 0"
      "radius (heap s 0) = 10" "\<not> creating_planet s" "\<not> setting_velocity s"
    using one_planet_state by blast
  have r: "reachable s" using handle_events_reachable [OF reachable_init s(1)] .
  have rd: "max MIN_RADIUS (py_int (of_int (2100 - 2000) / 100)) = 5"
    by (simp add: MIN_RADIUS_def)
  have hyp: "largest_planet s = Some 0 \<and> \<not> creating_planet s \<and> \<not> setting_velocity s"
    using s(4,6,7) by simp
  note T = clear_keeps_largest_planet [OF r, of "(0, 0)" 0 5 0 "(0, 0)" 2000 "(300, 300)" 2100
      "(300, 300)" 2500 "(300, 300)", THEN conjunct2, THEN conjunct2]
  obtain s' where s': "handle_events s [KEYDOWN K_SPACE (0, 0), MOUSEBUTTONDOWN 1 2000 (300, 300),
                           MOUSEBUTTONUP 1 2100 (300, 300), MOUSEBUTTONUP 1 2500 (300, 300)] = Inr s'"
      "planets s' = [next_addr s]"
      "cls (heap s' (next_addr s)) = Planet"
      "radius (heap s' (next_addr s)) = max MIN_RADIUS (py_int (of_int (2100 - 2000) / 100))"
      "is_largest (heap s' (next_addr s))
         \<longleftrightarrow> radius (heap s 0) < max MIN_RADIUS (py_int (of_int (2100 - 2000) / 100))"
      "\<not> radius (heap s 0) < max MIN_RADIUS (py_int (of_int (2100 - 2000) / 100)) \<longrightarrow>
          planets s' \<noteq> []
          \<and> (\<forall>a \<in> set (planets s'). \<not> is_largest (heap s' a)
                \<and> apply_gravity_to_center (heap s' a) = Inr (heap s' a))"
    using mp [OF T hyp] by blast
  have 1: "planets s' = [1]" using s'(2) s(3) by simp
  have 2: "cls (heap s' 1) = Planet" using s'(3) s(3) by simp
  have 3: "radius (heap s' 1) = 5" using s'(4) s(3) rd by simp
  have 4: "\<not> is_largest (heap s' 1)" using s'(5) s(3,5) rd by simp
  have 5: "apply_gravity_to_center (heap s' 1) = Inr (heap s' 1)"
    using s'(6) s(5) rd 1 by simp
  show "\<exists>s s'. handle_events init_sim one_planet = Inr s
       \<and> planets s = [0] \<and> largest_planet s = Some 0 \<and> radius (heap s 0) = 10
       \<and> handle_events s [KEYDOWN K_SPACE (0, 0), MOUSEBUTTONDOWN 1 2000 (300, 300),
                           MOUSEBUTTONUP 1 2100 (300, 300), MOUSEBUTTONUP 1 2500 (300, 300)] = Inr s'
       \<and> planets s' = [1] \<and> cls (heap s' 1) = Planet \<and> radius (heap s' 1) = 5
       \<and> \<not> is_largest (heap s' 1)
       \<and> apply_gravity_to_center (heap s' 1) = Inr (heap s' 1)"
    using s(1,2,4,5) s'(1) 1 2 3 4 5 by blast
next
  obtain s where s: "handle_events init_sim one_planet_then_sizing = Inr s"
      "planets s = [0]" "next_addr s = Suc 0" "largest_planet s = Some 0"
      "radius (heap s 0) = 10" "\<not> creating_planet s" "setting_velocity s"
      "main_radius s = Some 5"
    using one_planet_then_sizing_state by blast
  have r: "reachable s" using handle_events_reachable [OF reachable_init s(1)] .
  have hyp: "largest_planet s = Some 0 \<and> \<not> creating_planet s \<and> setting_velocity s
      \<and> main_radius s = Some 5"
    using s(4,6,7,8) by simp
  note T = clear_keeps_largest_planet [OF r, of "(0, 0)" 0 5 2500 "(300, 300)" 0 "(0, 0)" 0
      "(0, 0)" 0 "(0, 0)", THEN conjunct2, THEN conjunct1]
  obtain s' where s': "handle_event s (MOUSEBUTTONUP 1 2500 (300, 300)) = Inr s'"
      "planets s' = planets s @ [next_addr s]"
      "radius (heap s' (next_addr s)) = 5"
      "is_largest (heap s' (next_addr s)) \<longleftrightarrow> radius (heap s 0) < 5"
    using mp [OF T hyp] by blast
  have 1: "planets s' = [0, 1]" using s'(2) s(2,3) by simp
  have 2: "radius (heap s' 1) = 5" using s'(3) s(3) by simp
  have 3: "\<not> is_largest (heap s' 1)" using s'(4) s(3,5) by simp
  show "\<exists>s s'. handle_events init_sim one_planet_then_sizing = Inr s
       \<and> handle_event s (MOUSEBUTTONUP 1 2500 (300, 300)) = Inr s'
       \<and> planets s' = [0, 1] \<and> radius (heap s' 1) = 5 \<and> \<not> is_largest (heap s' 1)"
    using s(1) s'(1) 1 2 3 by blast
qed

end
